theory Spec2Isabelle
  imports Complex_Main
begin

section \<open>Exceptions\<close>

text \<open>
  The exceptions that the modelled Python can raise. \<open>RequestError\<close> stands for any
  exception raised by \<open>requests.get\<close> (timeout, connection error, DNS failure) and carries
  the text \<open>str(e)\<close>; \<open>OSError\<close> stands for a failing filesystem call and carries the
  path or the message of the operating system.
\<close>

datatype error =
    OverflowError
  | ZeroDivisionError
  | ValueError
  | TypeError
  | OSError string
  | RequestError string

section \<open>Numbers\<close>

subsection \<open>Doubles\<close>

text \<open>
  A Python float is an IEEE 754 double. A finite double is modelled by the real number it
  denotes, and every float operation of the source is the exact operation followed by
  \<open>rnd\<close>, rounding to the nearest number with a 53-bit significand, ties to the even
  significand. \<open>rnd\<close> has no bound on the exponent; the exponent range of doubles is
  written out at the two places where the program reacts to it: the conversion of an
  integer to a float and \<open>int(x)\<close>, both of which raise \<open>OverflowError\<close> for a magnitude
  that does not fit. Below \<open>2^-1022\<close> a double rounds more coarsely than \<open>rnd\<close>; in this
  program such numbers only arise as products for a zoom below -1022, where \<open>int\<close> maps
  them to 0 either way.
\<close>

definition rne :: "real \<Rightarrow> int" where
  "rne m =
     (let f = \<lfloor>m\<rfloor>
      in if m - of_int f < 1 / 2 then f
         else if 1 / 2 < m - of_int f then f + 1
         else if even f then f else f + 1)"

definition rnd :: "real \<Rightarrow> real" where
  "rnd x =
     (if x = 0 then 0
      else let e = \<lfloor>log 2 \<bar>x\<bar>\<rfloor>;
               q = 2 powr (of_int e - 52)
           in sgn x * of_int (rne (\<bar>x\<bar> / q)) * q)"

text \<open>
  The functions \<open>math.tan\<close> and \<open>math.asinh\<close> are those of the platform's C library,
  which IEEE 754 does not pin down to the last bit. They are a parameter of the model.
  \<open>libm_accurate\<close> is what the proofs below ask of them: a relative error of at most one
  part in a thousand on the small arguments that occur (a C library delivers about
  \<open>2^-52\<close>).
\<close>

record libm =
  libm_tan :: "real \<Rightarrow> real"
  libm_asinh :: "real \<Rightarrow> real"

definition libm_accurate :: "libm \<Rightarrow> bool" where
  "libm_accurate lm =
     ((\<forall>x. 0 \<le> x \<and> x \<le> 9 / 10 \<longrightarrow> \<bar>libm_tan lm x - tan x\<bar> \<le> tan x / 1000) \<and>
      (\<forall>x. 0 \<le> x \<and> x \<le> 2 \<longrightarrow> \<bar>libm_asinh lm x - arsinh x\<bar> \<le> arsinh x / 1000))"

text \<open>A C library whose two functions are correctly rounded.\<close>

definition rounded_libm :: libm where
  "rounded_libm = \<lparr> libm_tan = (\<lambda>x. rnd (tan x)), libm_asinh = (\<lambda>x. rnd (arsinh x)) \<rparr>"

subsection \<open>Integers and floats together\<close>

text \<open>
  \<open>2**zoom\<close> is an integer for \<open>zoom \<ge> 0\<close> and a float for a negative \<open>zoom\<close> (zero from
  \<open>2**-1075\<close> on), so the values of \<open>_get_tile_range\<close> are of either kind.
\<close>

datatype py_num = PyInt int | PyFloat real

definition num_val :: "py_num \<Rightarrow> real" where
  "num_val a = (case a of PyInt i \<Rightarrow> of_int i | PyFloat f \<Rightarrow> f)"

definition pow2 :: "int \<Rightarrow> py_num" where
  "pow2 zoom =
     (if 0 \<le> zoom then PyInt (2 ^ nat zoom)
      else PyFloat (if - 1074 \<le> zoom then 2 powr (of_int zoom) else 0))"

text \<open>
  An integer operand of a float operation is converted first, which raises when the
  rounded integer is \<open>2^1024\<close> or more.
\<close>

definition float_of_int :: "int \<Rightarrow> error + real" where
  "float_of_int i =
     (let r = rnd (of_int i) in if \<bar>r\<bar> < 2 ^ 1024 then Inr r else Inl OverflowError)"

definition as_float :: "py_num \<Rightarrow> error + real" where
  "as_float a = (case a of PyInt i \<Rightarrow> float_of_int i | PyFloat f \<Rightarrow> Inr f)"

text \<open>
  \<open>int(x)\<close> truncates toward zero; a product that left the range of doubles is an
  infinity, on which \<open>int\<close> raises.
\<close>

definition py_int :: "real \<Rightarrow> error + int" where
  "py_int x =
     (if 2 ^ 1024 \<le> \<bar>x\<bar> then Inl OverflowError
      else Inr (if 0 \<le> x then \<lfloor>x\<rfloor> else \<lceil>x\<rceil>))"

text \<open>\<open>min(a, b)\<close> returns \<open>a\<close> unless \<open>b\<close> is smaller, whatever the kinds of the two.\<close>

definition py_min :: "py_num \<Rightarrow> py_num \<Rightarrow> py_num" where
  "py_min a b = (if num_val b < num_val a then b else a)"

text \<open>
  \<open>a - b\<close>, \<open>a + b\<close> and \<open>a * b\<close>: integer arithmetic on two integers, float arithmetic
  otherwise. (The integers that meet a float below come from \<open>int\<close> of a finite double,
  so their conversion does not overflow.)
\<close>

definition to_float :: "py_num \<Rightarrow> real" where
  "to_float a = (case a of PyInt i \<Rightarrow> rnd (of_int i) | PyFloat f \<Rightarrow> f)"

definition num_op :: "(int \<Rightarrow> int \<Rightarrow> int) \<Rightarrow> (real \<Rightarrow> real \<Rightarrow> real) \<Rightarrow> py_num \<Rightarrow> py_num \<Rightarrow> py_num" where
  "num_op f g a b =
     (case (a, b) of
        (PyInt i, PyInt j) \<Rightarrow> PyInt (f i j)
      | _ \<Rightarrow> PyFloat (rnd (g (to_float a) (to_float b))))"

section \<open>Coordinate generator\<close>

subsection \<open>\<open>_latlon_to_tile\<close>\<close>

text \<open>
  \<open>math.radians(x)\<close> is \<open>x * (pi / 180.0)\<close> with the double \<open>math.pi\<close>, the double nearest
  to \<open>\<pi>\<close>.
\<close>

definition py_pi :: real where
  "py_pi = rnd pi"

definition radians :: "real \<Rightarrow> real" where
  "radians d = rnd (d * rnd (py_pi / 180))"

definition latlon_to_tile :: "libm \<Rightarrow> real \<Rightarrow> real \<Rightarrow> int \<Rightarrow> error + int \<times> int" where
  "latlon_to_tile lm lat lon zoom =
     (let lat_rad = radians lat;
          n = pow2 zoom
      in case as_float n of
           Inl e \<Rightarrow> Inl e
         | Inr nf \<Rightarrow>
             let x = rnd (rnd (rnd (lon + 180) / 360) * nf);
                 y = rnd (rnd (rnd (1 - rnd (libm_asinh lm (libm_tan lm lat_rad) / py_pi)) / 2) * nf)
             in (case py_int x of
                   Inl e \<Rightarrow> Inl e
                 | Inr xi \<Rightarrow>
                     (case py_int y of
                        Inl e \<Rightarrow> Inl e
                      | Inr yi \<Rightarrow> Inr (xi, yi))))"

subsection \<open>\<open>_get_tile_range\<close>\<close>

text \<open>The bounds are decimal literals, read as the nearest doubles.\<close>

record bounds =
  min_lon :: real
  max_lon :: real
  min_lat :: real
  max_lat :: real

definition shanghai :: bounds where
  "shanghai = \<lparr> min_lon = rnd 120.85, max_lon = rnd 122.20,
                min_lat = rnd 30.67, max_lat = rnd 31.88 \<rparr>"

type_synonym tile_range = "int \<times> py_num \<times> int \<times> py_num"

definition get_tile_range :: "libm \<Rightarrow> int \<Rightarrow> error + tile_range" where
  "get_tile_range lm zoom =
     (case latlon_to_tile lm (max_lat shanghai) (min_lon shanghai) zoom of
        Inl e \<Rightarrow> Inl e
      | Inr (x1, y1) \<Rightarrow>
     (case latlon_to_tile lm (min_lat shanghai) (max_lon shanghai) zoom of
        Inl e \<Rightarrow> Inl e
      | Inr (x2, y2) \<Rightarrow>
          let max_tile = num_op (-) (-) (pow2 zoom) (PyInt 1);
              x_min = max 0 (min x1 x2 - 1);
              x_max = py_min max_tile (PyInt (max x1 x2 + 1));
              y_min = max 0 (min y1 y2 - 1);
              y_max = py_min max_tile (PyInt (max y1 y2 + 1))
          in Inr (x_min, x_max, y_min, y_max)))"

subsection \<open>\<open>generate_coordinates\<close>\<close>

text \<open>
  What the program prints is kept as structured lines, one constructor for each
  \<open>print\<close> of the source, holding the values that the format string renders.
\<close>

type_synonym coord = "int \<times> int \<times> int"

datatype out_line =
    LevelLine int tile_range py_num
  | FailLine coord string
  | TotalLine nat
  | ProgressLine nat nat rat rat

definition range_size :: "tile_range \<Rightarrow> py_num" where
  "range_size r = (case r of (x_min, x_max, y_min, y_max) \<Rightarrow>
     num_op (\<lambda>i j. i * j) (\<lambda>a b. a * b)
       (num_op (+) (+) (num_op (-) (-) x_max (PyInt x_min)) (PyInt 1))
       (num_op (+) (+) (num_op (-) (-) y_max (PyInt y_min)) (PyInt 1)))"

text \<open>
  The two nested loops of one level. \<open>range\<close> raises \<open>TypeError\<close> on a float; the inner
  \<open>range\<close> is only built when the outer one is not empty.
\<close>

definition level_coords :: "int \<Rightarrow> tile_range \<Rightarrow> error + coord list" where
  "level_coords z r = (case r of (x_min, x_max, y_min, y_max) \<Rightarrow>
     (case x_max of
        PyFloat _ \<Rightarrow> Inl TypeError
      | PyInt xm \<Rightarrow>
          if xm < x_min then Inr []
          else (case y_max of
                  PyFloat _ \<Rightarrow> Inl TypeError
                | PyInt ym \<Rightarrow>
                    Inr (concat (map (\<lambda>x. map (\<lambda>y. (z, x, y)) [y_min..ym]) [x_min..xm])))))"

text \<open>
  The generator is a loop over \<open>range(z_start, z_end + 1)\<close>. Its model returns what the
  generator yields, what it prints, and the exception that ends it early (if any): the
  triples yielded before a raise stay yielded.
\<close>

fun gen_levels :: "libm \<Rightarrow> int list \<Rightarrow> coord list \<times> out_line list \<times> error option" where
  "gen_levels lm [] = ([], [], None)"
| "gen_levels lm (z # zs) =
     (case get_tile_range lm z of
        Inl e \<Rightarrow> ([], [], Some e)
      | Inr r \<Rightarrow>
          (case level_coords z r of
             Inl e \<Rightarrow> ([], [LevelLine z r (range_size r)], Some e)
           | Inr cs0 \<Rightarrow>
               (case gen_levels lm zs of (cs, ls, err) \<Rightarrow>
                  (cs0 @ cs, LevelLine z r (range_size r) # ls, err))))"

record config =
  z_start :: int
  z_end :: int
  save_dir :: string
  max_workers :: nat
  request_interval :: rat
  overwrite :: bool
  headers :: "(string \<times> string) list"

definition generate_coordinates ::
  "libm \<Rightarrow> config \<Rightarrow> out_line list \<Rightarrow> coord list \<times> out_line list \<times> error option" where
  "generate_coordinates lm cfg out =
     (case gen_levels lm [z_start cfg..z_end cfg] of
        (cs, ls, err) \<Rightarrow> (cs, out @ ls, err))"

text \<open>The order of the enumeration: zoom, then x, then y.\<close>

fun coord_less :: "coord \<Rightarrow> coord \<Rightarrow> bool" where
  "coord_less (z, x, y) (z', x', y') =
     (z < z' \<or> (z = z' \<and> (x < x' \<or> (x = x' \<and> y < y'))))"

section \<open>Tile fetcher\<close>

subsection \<open>The world outside the program\<close>

text \<open>
  The fetcher talks to a filesystem, a tile server, a clock and the terminal. They are one
  record that every operation takes and returns:
  \<^item> \<open>files\<close> maps the path of each regular file to its content, \<open>dirs\<close> is the set of
    directories;
  \<^item> \<open>mkdir_error\<close> and \<open>write_error\<close> say for which paths the operating system refuses
    to create a directory or to open a file for writing (permissions, full disk), and with
    which message;
  \<^item> \<open>server k\<close> is the answer to the \<open>k\<close>-th HTTP request made, \<open>requests\<close> the URLs
    requested so far;
  \<^item> \<open>sleeps\<close> lists the arguments of \<open>time.sleep\<close>, \<open>stdout\<close> the printed lines;
  \<^item> \<open>clock k\<close> is the \<open>k\<close>-th reading of \<open>time.time()\<close>, \<open>ticks\<close> the number of
    readings taken.
\<close>

datatype http_reply = Response int string | Raises string

record world =
  files :: "string \<rightharpoonup> string"
  dirs :: "string set"
  mkdir_error :: "string \<Rightarrow> string option"
  write_error :: "string \<Rightarrow> string option"
  server :: "nat \<Rightarrow> http_reply"
  requests :: "string list"
  sleeps :: "rat list"
  stdout :: "out_line list"
  clock :: "nat \<Rightarrow> rat"
  ticks :: nat

record downloader =
  config :: config
  downloaded :: int

subsection \<open>Strings and paths\<close>

text \<open>The decimal rendering of an integer in an f-string.\<close>

fun digits :: "nat \<Rightarrow> string" where
  "digits n =
     (if n < 10 then [''0123456789'' ! n]
      else digits (n div 10) @ [''0123456789'' ! (n mod 10)])"

declare digits.simps [simp del]

definition str_int :: "int \<Rightarrow> string" where
  "str_int i = (if i < 0 then CHR ''-'' # digits (nat (- i)) else digits (nat i))"

text \<open>\<open>os.path.join\<close> and \<open>os.path.dirname\<close> of \<open>posixpath\<close>.\<close>

definition path_join :: "string \<Rightarrow> string \<Rightarrow> string" where
  "path_join a b =
     (if b \<noteq> [] \<and> hd b = CHR ''/'' then b
      else if a = [] \<or> last a = CHR ''/'' then a @ b
      else a @ ''/'' @ b)"

definition rstrip_sep :: "string \<Rightarrow> string" where
  "rstrip_sep s = rev (dropWhile (\<lambda>c. c = CHR ''/'') (rev s))"

definition dirname :: "string \<Rightarrow> string" where
  "dirname p =
     (let head = rev (dropWhile (\<lambda>c. c \<noteq> CHR ''/'') (rev p))
      in if head \<noteq> [] \<and> head \<noteq> replicate (length head) (CHR ''/'')
         then rstrip_sep head else head)"

definition tile_url :: "coord \<Rightarrow> string" where
  "tile_url c = (case c of (z, x, y) \<Rightarrow>
     ''https://webrd04.is.autonavi.com/appmaptile?lang=zh_cn&size=1&scale=1&style=7&x=''
       @ str_int x @ ''&y='' @ str_int y @ ''&z='' @ str_int z)"

definition tile_path :: "config \<Rightarrow> coord \<Rightarrow> string" where
  "tile_path cfg c = (case c of (z, x, y) \<Rightarrow>
     path_join (save_dir cfg) (str_int z @ ''/'' @ str_int x @ ''/'' @ str_int y @ ''.png''))"

subsection \<open>Filesystem calls\<close>

text \<open>\<open>os.path.exists\<close> holds of files and of directories.\<close>

definition path_exists :: "world \<Rightarrow> string \<Rightarrow> bool" where
  "path_exists w p = (p \<in> dom (files w) \<or> p \<in> dirs w)"

text \<open>
  \<open>os.makedirs(name, exist_ok=True)\<close> creates \<open>name\<close> and every missing directory above
  it. It raises when a regular file sits at \<open>name\<close> or at one of the directories above it,
  and when the operating system refuses.
\<close>

definition ancestors :: "string \<Rightarrow> string list" where
  "ancestors name = [take i name. i \<leftarrow> [1..<length name], name ! i = CHR ''/''] @ [name]"

text \<open>
  \<open>blocked\<close> walks the directories from the top: below a regular file \<open>mkdir\<close> fails, and
  the exception names the directory it could not create (the file itself when it sits at
  \<open>name\<close>).
\<close>

fun blocked :: "world \<Rightarrow> string list \<Rightarrow> string option" where
  "blocked w [] = None"
| "blocked w [a] = (if a \<in> dom (files w) then Some a else None)"
| "blocked w (a # b # rest) = (if a \<in> dom (files w) then Some b else blocked w (b # rest))"

definition makedirs :: "string \<Rightarrow> world \<Rightarrow> error + world" where
  "makedirs name w =
     (case blocked w (ancestors name) of
        Some p \<Rightarrow> Inl (OSError p)
      | None \<Rightarrow>
          (case mkdir_error w name of
             Some msg \<Rightarrow> Inl (OSError msg)
           | None \<Rightarrow> Inr (w\<lparr>dirs := dirs w \<union> set (ancestors name)\<rparr>)))"

subsection \<open>\<open>download_tile\<close>\<close>

text \<open>
  The loop \<open>for retry in range(3)\<close> of \<open>download_tile\<close>, over the retry indices that are
  left. The \<open>try\<close> block covers the request and the writing of the file, and
  \<open>except Exception\<close> catches what either raises: both end in the same handler, which
  prints the message and sleeps \<open>2**retry\<close> seconds.
\<close>

fun attempts ::
  "string \<Rightarrow> string \<Rightarrow> coord \<Rightarrow> nat list \<Rightarrow> downloader \<Rightarrow> world \<Rightarrow> bool \<times> downloader \<times> world" where
  "attempts url path c [] d w = (False, d, w)"
| "attempts url path c (retry # rest) d w =
     (let w1 = w\<lparr>requests := requests w @ [url]\<rparr> in
      case server w (length (requests w)) of
        Raises msg \<Rightarrow>
          attempts url path c rest d
            (w1\<lparr>stdout := stdout w1 @ [FailLine c msg], sleeps := sleeps w1 @ [2 ^ retry]\<rparr>)
      | Response status_code content \<Rightarrow>
          if status_code = 200 then
            (case write_error w1 path of
               Some msg \<Rightarrow>
                 attempts url path c rest d
                   (w1\<lparr>stdout := stdout w1 @ [FailLine c msg], sleeps := sleeps w1 @ [2 ^ retry]\<rparr>)
             | None \<Rightarrow>
                 (True, d\<lparr>downloaded := downloaded d + 1\<rparr>,
                  w1\<lparr>files := (files w1)(path \<mapsto> content)\<rparr>))
          else attempts url path c rest d (w1\<lparr>sleeps := sleeps w1 @ [1]\<rparr>))"

text \<open>
  The result of \<open>download_tile\<close> is the boolean it returns, or the exception that leaves
  it. \<open>os.makedirs\<close> is called before the \<open>try\<close> block, so what it raises is not caught.
\<close>

definition download_tile ::
  "coord \<Rightarrow> downloader \<Rightarrow> world \<Rightarrow> (error + bool) \<times> downloader \<times> world" where
  "download_tile c d w =
     (let url = tile_url c;
          path = tile_path (config d) c
      in if \<not> overwrite (config d) \<and> path_exists w path then (Inr False, d, w)
         else (case makedirs (dirname path) w of
                 Inl e \<Rightarrow> (Inl e, d, w)
               | Inr w1 \<Rightarrow>
                   (case attempts url path c [0..<3] d w1 of
                      (b, d', w') \<Rightarrow> (Inr b, d', w'))))"

section \<open>Scheduler\<close>

text \<open>
  \<open>run\<close> submits one task for each coordinate to a thread pool and then takes the results
  of the futures in submission order. The model runs the tasks one after the other in
  submission order, which is the schedule of a pool with a single worker; an exception
  raised inside a task is kept in its future and raised again by \<open>future.result()\<close>.
\<close>

fun submit_all ::
  "coord list \<Rightarrow> downloader \<Rightarrow> world \<Rightarrow> (error + bool) list \<times> error option \<times> downloader \<times> world" where
  "submit_all [] d w = ([], None, d, w)"
| "submit_all (c # cs) d w =
     (case download_tile c d w of (res, d1, w1) \<Rightarrow>
        if request_interval (config d1) < 0 then ([res], Some ValueError, d1, w1)
        else (case submit_all cs d1 (w1\<lparr>sleeps := sleeps w1 @ [request_interval (config d1)]\<rparr>) of
                (rs, err, d2, w2) \<Rightarrow> (res # rs, err, d2, w2)))"

text \<open>
  The loop \<open>for i, future in enumerate(futures)\<close>, from index \<open>i\<close> with \<open>success\<close> successes
  counted so far. It returns the exception that ended it (if any), the number of results
  taken and the final value of \<open>success\<close>. A progress line holds \<open>i+1\<close>, \<open>total\<close> (here \<open>total_tiles\<close>),
  \<open>success/(i+1)\<close> and \<open>i/elapsed\<close>; the float division raises when \<open>elapsed\<close> is zero.
\<close>

fun collect ::
  "nat \<Rightarrow> rat \<Rightarrow> (error + bool) list \<Rightarrow> nat \<Rightarrow> nat \<Rightarrow> world \<Rightarrow> error option \<times> nat \<times> nat \<times> world" where
  "collect total_tiles start_time [] i success w = (None, i, success, w)"
| "collect total_tiles start_time (r # rs) i success w =
     (case r of
        Inl e \<Rightarrow> (Some e, i, success, w)
      | Inr b \<Rightarrow>
          let success' = (if b then success + 1 else success) in
          if i mod 100 = 0 then
            let elapsed = clock w (ticks w) - start_time;
                w1 = w\<lparr>ticks := ticks w + 1\<rparr>
            in if elapsed = 0 then (Some ZeroDivisionError, i + 1, success', w1)
               else collect total_tiles start_time rs (i + 1) success'
                      (w1\<lparr>stdout := stdout w1 @
                         [ProgressLine (i + 1) total_tiles
                            (of_nat success' / of_nat (i + 1)) (of_nat i / elapsed)]\<rparr>)
          else collect total_tiles start_time rs (i + 1) success' w)"

definition run :: "libm \<Rightarrow> downloader \<Rightarrow> world \<Rightarrow> error option \<times> downloader \<times> world" where
  "run lm d w =
     (case generate_coordinates lm (config d) (stdout w) of
        (cs, out1, Some e) \<Rightarrow> (Some e, d, w\<lparr>stdout := out1\<rparr>)
      | (cs, out1, None) \<Rightarrow>
          let total_tiles = length cs;
              w1 = w\<lparr>stdout := out1 @ [TotalLine total_tiles]\<rparr>
          in if max_workers (config d) = 0 then (Some ValueError, d, w1)
             else
               let start_time = clock w1 (ticks w1);
                   w2 = w1\<lparr>ticks := ticks w1 + 1\<rparr>
               in (case generate_coordinates lm (config d) (stdout w2) of
                     (cs2, out2, err2) \<Rightarrow>
                       (case submit_all cs2 d (w2\<lparr>stdout := out2\<rparr>) of
                          (rs, Some e, d3, w3) \<Rightarrow> (Some e, d3, w3)
                        | (rs, None, d3, w3) \<Rightarrow>
                            (case err2 of
                               Some e \<Rightarrow> (Some e, d3, w3)
                             | None \<Rightarrow>
                                 (case collect total_tiles start_time rs 0 0 w3 of
                                    (err, n, success, w4) \<Rightarrow> (err, d3, w4))))))"

section \<open>Concrete configurations and worlds\<close>

text \<open>
  \<open>main_config\<close> is the configuration of the script's \<open>__main__\<close> block and
  \<open>new_downloader\<close> is \<open>__init__\<close>. The worlds below are the situations in which the
  fetcher is evaluated: an empty disk with a server that answers 200, a disk that already
  holds the tile, a disk where a regular file sits where the directory of zoom 13 should
  be, a network on which every request times out, and a server that answers 500.
\<close>

definition main_config :: config where
  "main_config = \<lparr> z_start = 13, z_end = 13, save_dir = ''./shanghai_tiles'', max_workers = 6,
     request_interval = 1 / 5, overwrite = False,
     headers = [(''User-Agent'', ''Mozilla/5.0 (Windows NT 10.0; Win64; x64)''),
                (''Referer'', ''https://www.amap.com/'')] \<rparr>"

definition new_downloader :: "config \<Rightarrow> downloader" where
  "new_downloader cfg = \<lparr> config = cfg, downloaded = 0 \<rparr>"

definition quiet_world :: world where
  "quiet_world = \<lparr> files = Map.empty, dirs = {}, mkdir_error = (\<lambda>p. None),
     write_error = (\<lambda>p. None), server = (\<lambda>k. Response 200 ''PNG''), requests = [],
     sleeps = [], stdout = [], clock = (\<lambda>k. of_nat k + 2), ticks = 0 \<rparr>"

definition tile_on_disk :: world where
  "tile_on_disk = quiet_world\<lparr>files := [''./shanghai_tiles/13/6845/3345.png'' \<mapsto> ''OLD'']\<rparr>"

definition file_in_the_way :: world where
  "file_in_the_way = quiet_world\<lparr>files := [''./shanghai_tiles/13'' \<mapsto> ''notes'']\<rparr>"

definition offline :: world where
  "offline = quiet_world\<lparr>server := (\<lambda>k. Raises ''timed out'')\<rparr>"

definition server_down :: world where
  "server_down = quiet_world\<lparr>server := (\<lambda>k. Response 500 ''error'')\<rparr>"

section \<open>Properties of rounding\<close>

lemma rne_err: "\<bar>of_int (rne m) - m\<bar> \<le> 1 / 2"
proof -
  have "of_int \<lfloor>m\<rfloor> \<le> m" "m < of_int \<lfloor>m\<rfloor> + 1" by linarith+
  then show ?thesis by (auto simp: rne_def Let_def)
qed

lemma rnd_err: "\<bar>rnd x - x\<bar> \<le> \<bar>x\<bar> / 2 ^ 53"
proof (cases "x = 0")
  case True
  then show ?thesis by (simp add: rnd_def)
next
  case False
  define e where "e = \<lfloor>log 2 \<bar>x\<bar>\<rfloor>"
  define q :: real where "q = 2 powr (of_int e - 52)"
  define m where "m = \<bar>x\<bar> / q"
  have qpos: "0 < q" by (simp add: q_def)
  have "of_int e \<le> log 2 \<bar>x\<bar>" by (simp add: e_def)
  then have "2 powr (of_int e) \<le> 2 powr (log 2 \<bar>x\<bar>)" by simp
  then have lo: "2 powr (of_int e) \<le> \<bar>x\<bar>" using False by simp
  have q52: "q * 2 ^ 52 = 2 powr (of_int e)"
    by (simp add: q_def powr_diff)
  have r: "rnd x = sgn x * of_int (rne m) * q"
    using False by (simp add: rnd_def e_def q_def m_def Let_def)
  have x: "x = sgn x * (m * q)" using qpos by (simp add: m_def sgn_real_def)
  have "rnd x - x = sgn x * q * (of_int (rne m) - m)"
    by (subst r, subst (2) x) (simp add: algebra_simps)
  then have "\<bar>rnd x - x\<bar> = q * \<bar>of_int (rne m) - m\<bar>"
    using False qpos by (simp add: abs_mult sgn_real_def)
  also have "\<dots> \<le> q * (1 / 2)"
    using qpos rne_err[of m] by (intro mult_left_mono) auto
  also have "\<dots> = 2 powr (of_int e) / 2 ^ 53" using q52 by simp
  also have "\<dots> \<le> \<bar>x\<bar> / 2 ^ 53" using lo by (simp add: divide_right_mono)
  finally show ?thesis .
qed

lemma rnd_coarse:
  assumes "0 \<le> x"
  shows "x * (999 / 1000) \<le> rnd x" "rnd x \<le> x * (1001 / 1000)"
proof -
  have "x / 2 ^ 53 \<le> x / 1000" using assms by (intro divide_left_mono) auto
  with rnd_err[of x] assms have "\<bar>rnd x - x\<bar> \<le> x / 1000" by simp
  then have "rnd x - x \<le> x / 1000" "x - rnd x \<le> x / 1000" by linarith+
  then show "x * (999 / 1000) \<le> rnd x" "rnd x \<le> x * (1001 / 1000)" by linarith+
qed

lemma rnd_in:
  assumes "0 \<le> a" "a \<le> x" "x \<le> b"
  shows "a * (999 / 1000) \<le> rnd x" "rnd x \<le> b * (1001 / 1000)"
proof -
  have x: "0 \<le> x" using assms by simp
  show "a * (999 / 1000) \<le> rnd x" using rnd_coarse(1)[OF x] assms by simp
  show "rnd x \<le> b * (1001 / 1000)" using rnd_coarse(2)[OF x] assms by simp
qed


lemma rnd_powr2: "rnd (2 powr of_int k) = 2 powr of_int k"
proof -
  have nz: "(2::real) powr of_int k \<noteq> 0" by simp
  have e: "\<lfloor>log 2 \<bar>2 powr of_int k\<bar>\<rfloor> = k" by simp
  have m: "\<bar>2 powr of_int k\<bar> / 2 powr (of_int k - 52) = (2::real) ^ 52"
    by (simp add: powr_diff)
  have "rne ((2::real) ^ 52) = 2 ^ 52" by (simp add: rne_def)
  moreover have "(2::real) ^ 52 * 2 powr (of_int k - 52) = 2 powr of_int k"
    by (simp add: powr_diff)
  ultimately show ?thesis
    unfolding rnd_def using nz by (simp only: e m Let_def if_False) (simp add: powr_diff)
qed

lemma rnd_pow2: "rnd (2 ^ n) = 2 ^ n"
  using rnd_powr2[of "int n"] by (simp add: powr_realpow)

lemma rnd_nonpos: "x \<le> 0 \<Longrightarrow> rnd x \<le> 0"
proof -
  assume x: "x \<le> 0"
  have "\<bar>x\<bar> / 2 ^ 53 \<le> \<bar>x\<bar>" by (simp add: divide_le_eq)
  with rnd_err[of x] have "\<bar>rnd x - x\<bar> \<le> \<bar>x\<bar>" by linarith
  with x show ?thesis by linarith
qed

lemma rnd_binade:
  assumes "2 powr of_int e \<le> x" "x < 2 powr (of_int e + 1)"
  shows "rnd x = of_int (rne (x / 2 powr (of_int e - 52))) * 2 powr (of_int e - 52)"
proof -
  have pos: "0 < x" using assms(1) by (smt (verit) powr_gt_zero)
  have "of_int e \<le> log 2 x" using assms(1) pos by (simp add: le_log_iff)
  moreover have "log 2 x < of_int e + 1" using assms(2) pos by (simp add: log_less_iff)
  ultimately have "\<lfloor>log 2 x\<rfloor> = e" by (simp add: floor_eq_iff)
  then show ?thesis using pos by (simp add: rnd_def Let_def)
qed

lemma rnd_above_one:
  assumes "2 ^ k \<le> x" "x < 2 * 2 ^ k"
  shows "rnd x = of_int (rne (x * 2 ^ 52 / 2 ^ k)) * 2 ^ k / 2 ^ 52"
  using rnd_binade[of "int k" x] assms
  by (simp add: powr_realpow powr_add powr_diff)

lemma rnd_below_one:
  assumes "1 / 2 ^ k \<le> x" "x < 2 / 2 ^ k"
  shows "rnd x = of_int (rne (x * 2 ^ 52 * 2 ^ k)) / (2 ^ 52 * 2 ^ k)"
  using rnd_binade[of "- int k" x] assms
  by (simp add: powr_realpow powr_add powr_diff powr_minus field_simps)

subsection \<open>The doubles of the western edge\<close>

text \<open>
  \<open>rnd\<close> computes the doubles of the source: the literal \<open>120.85\<close>, the sum with
  \<open>180.0\<close> and the quotient by \<open>360.0\<close>.
\<close>

lemma min_lon_double: "rnd 120.85 = 4252031366935347 / 2 ^ 45"
proof -
  have "rnd 120.85 = of_int (rne (120.85 * 2 ^ 52 / 2 ^ 6)) * 2 ^ 6 / 2 ^ 52"
    by (rule rnd_above_one) simp_all
  also have "rne (120.85 * 2 ^ 52 / 2 ^ 6) = 8504062733870694"
    by (simp add: rne_def)
  finally show ?thesis by simp
qed

lemma min_lon_plus_180: "rnd (4252031366935347 / 2 ^ 45 + 180) = 2646304585731277 / 2 ^ 43"
proof -
  have "rnd (4252031366935347 / 2 ^ 45 + 180) =
      of_int (rne ((4252031366935347 / 2 ^ 45 + 180) * 2 ^ 52 / 2 ^ 8)) * 2 ^ 8 / 2 ^ 52"
    by (rule rnd_above_one) simp_all
  also have "rne ((4252031366935347 / 2 ^ 45 + 180) * 2 ^ 52 / 2 ^ 8) = 5292609171462554"
    by (simp add: rne_def)
  finally show ?thesis by simp
qed

lemma min_lon_fraction: "rnd (2646304585731277 / 2 ^ 43 / 360) = 1881816594297797 / 2 ^ 51"
proof -
  have "rnd (2646304585731277 / 2 ^ 43 / 360) =
      of_int (rne (2646304585731277 / 2 ^ 43 / 360 * 2 ^ 52 * 2 ^ 1)) / (2 ^ 52 * 2 ^ 1)"
    by (rule rnd_below_one) simp_all
  also have "rne (2646304585731277 / 2 ^ 43 / 360 * 2 ^ 52 * 2 ^ 1) = 7527266377191188"
    by (simp add: rne_def)
  finally show ?thesis by simp
qed

section \<open>Properties of the coordinate generator\<close>

subsection \<open>Tile indices of a point stay inside the grid\<close>

lemma pow2_as_float:
  assumes "0 \<le> zoom" "zoom < 1024"
  shows "\<exists>nf. as_float (pow2 zoom) = Inr nf \<and>
     2 ^ nat zoom * (999 / 1000) \<le> nf \<and> nf \<le> 2 ^ nat zoom * (1001 / 1000)"
proof -
  define N :: real where "N = 2 ^ nat zoom"
  have "nat zoom \<le> 1023" using assms by simp
  then have "(2::real) ^ nat zoom \<le> 2 ^ 1023" by (intro power_increasing) auto
  then have N: "0 < N" "N \<le> 2 ^ 1023" by (simp_all add: N_def)
  have b: "N * (999 / 1000) \<le> rnd N" "rnd N \<le> N * (1001 / 1000)"
    using rnd_coarse[of N] N by simp_all
  have "rnd N \<le> 2 ^ 1023 * (1001 / 1000)" using b(2) N(2) by simp
  also have "\<dots> < (2::real) ^ 1024" by simp
  finally have "\<bar>rnd N\<bar> < 2 ^ 1024" using b(1) N(1) by simp
  then have "as_float (pow2 zoom) = Inr (rnd N)"
    using assms by (simp add: as_float_def pow2_def float_of_int_def N_def Let_def)
  with b show ?thesis unfolding N_def by blast
qed

lemma py_int_below:
  assumes "0 \<le> x" "x < 2 ^ k" "k \<le> 1023"
  shows "\<exists>i. py_int x = Inr i \<and> 0 \<le> i \<and> i \<le> 2 ^ k - 1"
proof -
  have "(2::real) ^ k \<le> 2 ^ 1024" using assms(3) by (intro power_increasing) auto
  then have "\<not> 2 ^ 1024 \<le> \<bar>x\<bar>" using assms by simp
  then have p: "py_int x = Inr \<lfloor>x\<rfloor>" using assms(1) by (simp add: py_int_def)
  have "\<lfloor>x\<rfloor> < (2::int) ^ k" using assms(2) by (simp add: floor_less_iff)
  moreover have "0 \<le> \<lfloor>x\<rfloor>" using assms(1) by simp
  ultimately show ?thesis using p by simp
qed

lemma x_fraction:
  assumes "119 \<le> lon" "lon \<le> 124"
  shows "4 / 5 \<le> rnd (rnd (lon + 180) / 360)" "rnd (rnd (lon + 180) / 360) \<le> 9 / 10"
proof -
  have r1: "299 * (999 / 1000) \<le> rnd (lon + 180)" "rnd (lon + 180) \<le> 304 * (1001 / 1000)"
    using rnd_in[of 299 "lon + 180" 304] assms by simp_all
  have a2: "82 / 100 \<le> rnd (lon + 180) / 360" "rnd (lon + 180) / 360 \<le> 17 / 20"
    using r1 by linarith+
  have "82 / 100 * (999 / 1000) \<le> rnd (rnd (lon + 180) / 360)"
    "rnd (rnd (lon + 180) / 360) \<le> 17 / 20 * (1001 / 1000)"
    using rnd_in[OF _ a2] by simp_all
  then show "4 / 5 \<le> rnd (rnd (lon + 180) / 360)" "rnd (rnd (lon + 180) / 360) \<le> 9 / 10"
    by linarith+
qed

lemma scaled_below:
  assumes "0 \<le> f" "f \<le> 9 / 10" "0 < N" "N * (999 / 1000) \<le> nf" "nf \<le> N * (1001 / 1000)"
  shows "0 \<le> rnd (f * nf)" "rnd (f * nf) < N"
proof -
  have "0 \<le> N * (999 / 1000)" using assms(3) by simp
  then have nf: "0 \<le> nf" using assms(4) by linarith
  have p0: "0 \<le> f * nf" using assms(1) nf by simp
  have "f * nf \<le> 9 / 10 * (N * (1001 / 1000))"
    using assms nf by (intro mult_mono) simp_all
  then have p1: "f * nf \<le> N * (9009 / 10000)" by simp
  have "rnd (f * nf) \<le> N * (9009 / 10000) * (1001 / 1000)"
    by (rule rnd_in(2)[OF order_refl p0 p1])
  also have "\<dots> < N" using assms(3) by simp
  finally show "rnd (f * nf) < N" .
  have "0 * (999 / 1000) \<le> rnd (f * nf)" by (rule rnd_in(1)[OF order_refl p0 order_refl])
  then show "0 \<le> rnd (f * nf)" by simp
qed

lemma literal_bounds:
  "119 \<le> rnd 120.85" "rnd 120.85 \<le> 124" "119 \<le> rnd 122.20" "rnd 122.20 \<le> 124"
  "30 \<le> rnd 30.67" "rnd 30.67 \<le> 32" "30 \<le> rnd 31.88" "rnd 31.88 \<le> 32"
  using rnd_coarse[of "120.85"] rnd_coarse[of "122.20"] rnd_coarse[of "30.67"] rnd_coarse[of "31.88"]
  by simp_all

lemma py_pi_bounds: "pi * (999 / 1000) \<le> py_pi" "py_pi \<le> pi * (1001 / 1000)"
  using rnd_coarse[of pi] by (simp_all add: py_pi_def)

lemma radians_bounds:
  assumes "30 \<le> lat" "lat \<le> 32"
  shows "0 < radians lat" "radians lat < pi / 4" "radians lat \<le> 9 / 10"
proof -
  note p = py_pi_bounds
  have p3: "0 < pi" by simp
  have c: "pi * (999 / 180000) \<le> py_pi / 180" "py_pi / 180 \<le> pi * (1001 / 180000)"
    using p by linarith+
  have c0: "0 \<le> pi * (999 / 180000)" by simp
  have rc: "pi * (999 / 180000) * (999 / 1000) \<le> rnd (py_pi / 180)"
    "rnd (py_pi / 180) \<le> pi * (1001 / 180000) * (1001 / 1000)"
    using rnd_in[OF c0 c] by simp_all
  have "0 \<le> pi * (999 / 180000) * (999 / 1000)" by simp
  then have rc0: "0 \<le> rnd (py_pi / 180)" using rc(1) by linarith
  have lo: "30 * (pi * (999 / 180000) * (999 / 1000)) \<le> lat * rnd (py_pi / 180)"
    using assms rc(1) rc0 by (intro mult_mono) simp_all
  have hi: "lat * rnd (py_pi / 180) \<le> 32 * (pi * (1001 / 180000) * (1001 / 1000))"
    using assms rc(2) rc0 by (intro mult_mono) simp_all
  have lo0: "0 \<le> 30 * (pi * (999 / 180000) * (999 / 1000))" by simp
  have r: "30 * (pi * (999 / 180000) * (999 / 1000)) * (999 / 1000) \<le> radians lat"
    "radians lat \<le> 32 * (pi * (1001 / 180000) * (1001 / 1000)) * (1001 / 1000)"
    using rnd_in[OF lo0 lo hi] by (simp_all add: radians_def)
  have "0 < 30 * (pi * (999 / 180000) * (999 / 1000)) * (999 / 1000)" by simp
  then show "0 < radians lat" using r(1) by linarith
  have "32 * (pi * (1001 / 180000) * (1001 / 1000)) * (1001 / 1000) \<le> pi * (18 / 100)" by simp
  then have u: "radians lat \<le> pi * (18 / 100)" using r(2) by linarith
  then show "radians lat < pi / 4" using p3 by linarith
  show "radians lat \<le> 9 / 10" using u pi_less_4 by linarith
qed

lemma arsinh_small:
  fixes t :: real
  assumes "0 < t" "t \<le> 11 / 10"
  shows "0 < arsinh t" "arsinh t \<le> 16 / 10"
proof -
  show "0 < arsinh t" using assms(1) by simp
  have "sqrt (t\<^sup>2 + 1) \<le> 3 / 2"
  proof (rule real_le_lsqrt)
    have "t\<^sup>2 \<le> (11 / 10)\<^sup>2" using assms by (intro power_mono) simp_all
    then show "t\<^sup>2 + 1 \<le> (3 / 2)\<^sup>2" by (simp add: power2_eq_square)
  qed simp
  then have le: "t + sqrt (t\<^sup>2 + 1) \<le> 1 + 16 / 10" using assms(2) by linarith
  have "arsinh t = ln (t + sqrt (t\<^sup>2 + 1))" by (simp add: arsinh_real_def)
  also have "\<dots> \<le> ln (1 + 16 / 10)" using le arsinh_real_aux[of t] by (intro ln_mono) simp_all
  also have "\<dots> \<le> 16 / 10" by (rule ln_add_one_self_le_self) simp
  finally show "arsinh t \<le> 16 / 10" .
qed

lemma y_fraction:
  assumes acc: "libm_accurate lm" and lat: "30 \<le> lat" "lat \<le> 32"
  shows "0 \<le> rnd (rnd (1 - rnd (libm_asinh lm (libm_tan lm (radians lat)) / py_pi)) / 2)"
    "rnd (rnd (1 - rnd (libm_asinh lm (libm_tan lm (radians lat)) / py_pi)) / 2) \<le> 9 / 10"
proof -
  define lr where "lr = radians lat"
  define t where "t = libm_tan lm lr"
  define a where "a = libm_asinh lm t"
  note r = radians_bounds[OF lat, folded lr_def]
  have t0: "0 < tan lr"
  proof (rule tan_gt_zero)
    show "0 < lr" by (rule r(1))
    show "lr < pi / 2" using r(2) pi_gt_zero by linarith
  qed
  have "tan lr < tan (pi / 4)"
  proof (rule tan_monotone)
    show "- (pi / 2) < lr" using r(1) pi_gt_zero by linarith
    show "lr < pi / 4" by (rule r(2))
    show "pi / 4 < pi / 2" using pi_gt_zero by simp
  qed
  then have t1: "tan lr < 1" by (simp add: tan_45)
  have "\<bar>t - tan lr\<bar> \<le> tan lr / 1000"
    using acc r(1,3) by (simp add: libm_accurate_def t_def)
  then have t: "0 < t" "t \<le> 11 / 10" using t0 t1 by linarith+
  note ar = arsinh_small[OF t]
  have "\<bar>a - arsinh t\<bar> \<le> arsinh t / 1000"
    using acc t by (simp add: libm_accurate_def a_def)
  then have a: "0 \<le> a" "a \<le> 1602 / 1000" using ar by linarith+
  have pp: "1998 / 1000 \<le> py_pi" using py_pi_bounds(1) pi_ge_two by linarith
  have q0: "0 \<le> a / py_pi" using a(1) pp by simp
  have "a / py_pi \<le> (1602 / 1000) / (1998 / 1000)"
    using a pp by (intro frac_le) simp_all
  then have q1: "a / py_pi \<le> 81 / 100" by simp
  have q: "0 \<le> rnd (a / py_pi)" "rnd (a / py_pi) \<le> 82 / 100"
    using rnd_in[OF order_refl q0 q1] by simp_all
  have s: "0 \<le> 1 - rnd (a / py_pi)" "1 - rnd (a / py_pi) \<le> 1" using q by linarith+
  have rs: "0 \<le> rnd (1 - rnd (a / py_pi))" "rnd (1 - rnd (a / py_pi)) \<le> 1001 / 1000"
    using rnd_in[OF order_refl s] by simp_all
  have h: "0 \<le> rnd (1 - rnd (a / py_pi)) / 2" "rnd (1 - rnd (a / py_pi)) / 2 \<le> 51 / 100"
    using rs by linarith+
  have "0 \<le> rnd (rnd (1 - rnd (a / py_pi)) / 2)" "rnd (rnd (1 - rnd (a / py_pi)) / 2) \<le> 9 / 10"
    using rnd_in[OF order_refl h] by simp_all
  then show "0 \<le> rnd (rnd (1 - rnd (libm_asinh lm (libm_tan lm (radians lat)) / py_pi)) / 2)"
    "rnd (rnd (1 - rnd (libm_asinh lm (libm_tan lm (radians lat)) / py_pi)) / 2) \<le> 9 / 10"
    by (simp_all add: a_def t_def lr_def)
qed

lemma latlon_to_tile_range:
  assumes "libm_accurate lm" "0 \<le> zoom" "zoom < 1024"
    and "30 \<le> lat" "lat \<le> 32" "119 \<le> lon" "lon \<le> 124"
  shows "\<exists>x y. latlon_to_tile lm lat lon zoom = Inr (x, y) \<and>
     0 \<le> x \<and> x \<le> 2 ^ nat zoom - 1 \<and> 0 \<le> y \<and> y \<le> 2 ^ nat zoom - 1"
proof -
  from pow2_as_float[OF assms(2,3)] obtain nf where
    nf: "as_float (pow2 zoom) = Inr nf"
      "2 ^ nat zoom * (999 / 1000) \<le> nf" "nf \<le> 2 ^ nat zoom * (1001 / 1000)"
    by blast
  have N: "(0::real) < 2 ^ nat zoom" by simp
  have k: "nat zoom \<le> 1023" using assms(2,3) by simp
  define fx where "fx = rnd (rnd (lon + 180) / 360)"
  define fy where "fy = rnd (rnd (1 - rnd (libm_asinh lm (libm_tan lm (radians lat)) / py_pi)) / 2)"
  have fx: "0 \<le> fx" "fx \<le> 9 / 10"
    using x_fraction[OF assms(6,7)] by (simp_all add: fx_def)
  have fy: "0 \<le> fy" "fy \<le> 9 / 10"
    using y_fraction[OF assms(1,4,5)] by (simp_all add: fy_def)
  note bx = scaled_below[OF fx N nf(2,3)]
  note by' = scaled_below[OF fy N nf(2,3)]
  from py_int_below[OF bx k] obtain xi where
    xi: "py_int (rnd (fx * nf)) = Inr xi" "0 \<le> xi" "xi \<le> 2 ^ nat zoom - 1" by blast
  from py_int_below[OF by' k] obtain yi where
    yi: "py_int (rnd (fy * nf)) = Inr yi" "0 \<le> yi" "yi \<le> 2 ^ nat zoom - 1" by blast
  have "latlon_to_tile lm lat lon zoom = Inr (xi, yi)"
    using nf(1) xi(1) yi(1) by (simp add: latlon_to_tile_def Let_def fx_def fy_def)
  with xi yi show ?thesis by blast
qed

lemma rounded_libm_accurate: "libm_accurate rounded_libm"
proof -
  have "\<bar>rnd y - y\<bar> \<le> y / 1000" if "0 \<le> y" for y
    using rnd_coarse[OF that] by linarith
  moreover have "0 \<le> tan x" if "0 \<le> x" "x \<le> 9 / 10" for x :: real
  proof (rule tan_pos_pi2_le)
    show "0 \<le> x" by (rule that)
    show "x < pi / 2" using that pi_ge_two by linarith
  qed
  moreover have "0 \<le> arsinh x" if "0 \<le> x" for x :: real
    using that by (metis arsinh_0 arsinh_less_iff_real less_eq_real_def)
  ultimately show ?thesis by (simp add: libm_accurate_def rounded_libm_def)
qed

lemma overflow_at_1024: "latlon_to_tile lm lat lon 1024 = Inl OverflowError"
proof -
  have "rnd (2 ^ 1024) = (2::real) ^ 1024" by (rule rnd_pow2)
  then have "as_float (pow2 1024) = Inl OverflowError"
    by (simp add: as_float_def pow2_def float_of_int_def)
  then show ?thesis by (simp add: latlon_to_tile_def Let_def)
qed

lemma shanghai_corners:
  "30 \<le> max_lat shanghai" "max_lat shanghai \<le> 32" "119 \<le> min_lon shanghai" "min_lon shanghai \<le> 124"
  "30 \<le> min_lat shanghai" "min_lat shanghai \<le> 32" "119 \<le> max_lon shanghai" "max_lon shanghai \<le> 124"
  using literal_bounds by (simp_all add: shanghai_def)

lemma max_tile_int:
  "0 \<le> zoom \<Longrightarrow> num_op (-) (-) (pow2 zoom) (PyInt 1) = PyInt (2 ^ nat zoom - 1)"
  by (simp add: num_op_def pow2_def)

lemma py_min_int: "py_min (PyInt a) (PyInt b) = PyInt (min a b)"
  by (simp add: py_min_def num_val_def min_def)

lemma get_tile_range_Inr:
  assumes "libm_accurate lm" "0 \<le> zoom" "zoom < 1024"
  shows "\<exists>x1 y1 x2 y2.
     latlon_to_tile lm (max_lat shanghai) (min_lon shanghai) zoom = Inr (x1, y1) \<and>
     latlon_to_tile lm (min_lat shanghai) (max_lon shanghai) zoom = Inr (x2, y2) \<and>
     0 \<le> x1 \<and> x1 \<le> 2 ^ nat zoom - 1 \<and> 0 \<le> y1 \<and> y1 \<le> 2 ^ nat zoom - 1 \<and>
     0 \<le> x2 \<and> x2 \<le> 2 ^ nat zoom - 1 \<and> 0 \<le> y2 \<and> y2 \<le> 2 ^ nat zoom - 1 \<and>
     get_tile_range lm zoom =
       Inr (max 0 (min x1 x2 - 1), PyInt (min (2 ^ nat zoom - 1) (max x1 x2 + 1)),
            max 0 (min y1 y2 - 1), PyInt (min (2 ^ nat zoom - 1) (max y1 y2 + 1)))"
proof -
  obtain x1 y1 where c1: "latlon_to_tile lm (max_lat shanghai) (min_lon shanghai) zoom = Inr (x1, y1)"
    "0 \<le> x1" "x1 \<le> 2 ^ nat zoom - 1" "0 \<le> y1" "y1 \<le> 2 ^ nat zoom - 1"
    using latlon_to_tile_range[OF assms shanghai_corners(1,2,3,4)] by blast
  obtain x2 y2 where c2: "latlon_to_tile lm (min_lat shanghai) (max_lon shanghai) zoom = Inr (x2, y2)"
    "0 \<le> x2" "x2 \<le> 2 ^ nat zoom - 1" "0 \<le> y2" "y2 \<le> 2 ^ nat zoom - 1"
    using latlon_to_tile_range[OF assms shanghai_corners(5,6,7,8)] by blast
  have "get_tile_range lm zoom =
       Inr (max 0 (min x1 x2 - 1), PyInt (min (2 ^ nat zoom - 1) (max x1 x2 + 1)),
            max 0 (min y1 y2 - 1), PyInt (min (2 ^ nat zoom - 1) (max y1 y2 + 1)))"
    by (simp add: get_tile_range_def c1(1) c2(1) Let_def max_tile_int[OF assms(2)] py_min_int)
  with c1 c2 show ?thesis by blast
qed

lemma clip_ordered:
  fixes a b t :: int
  assumes "0 \<le> a" "a \<le> t" "0 \<le> b" "b \<le> t"
  shows "0 \<le> max 0 (min a b - 1)" "max 0 (min a b - 1) \<le> min t (max a b + 1)"
    "min t (max a b + 1) \<le> t"
  using assms by auto

subsection \<open>The tile range\<close>

text \<open>
  Claim C4, amended. With a C library that is accurate in the sense of \<open>libm_accurate\<close>,
  for every zoom level from 0 to 1023 and the fixed Shanghai box, \<open>_get_tile_range\<close>
  returns integers \<open>(x_min, x_max, y_min, y_max)\<close> with \<open>0 \<le> x_min \<le> x_max \<le> 2^z - 1\<close> and
  \<open>0 \<le> y_min \<le> y_max \<le> 2^z - 1\<close>, obtained from the tile coordinates of the two corners
  by elementwise minimum and maximum, one more tile on every side, and clipping to
  \<open>[0, 2^z - 1]\<close>.
\<close>

theorem get_tile_range_in_grid:
  assumes "libm_accurate lm" and "0 \<le> zoom" and "zoom < 1024"
  shows "\<exists>x1 y1 x2 y2 x_min x_max y_min y_max.
     latlon_to_tile lm (max_lat shanghai) (min_lon shanghai) zoom = Inr (x1, y1) \<and>
     latlon_to_tile lm (min_lat shanghai) (max_lon shanghai) zoom = Inr (x2, y2) \<and>
     get_tile_range lm zoom = Inr (x_min, PyInt x_max, y_min, PyInt y_max) \<and>
     x_min = max 0 (min x1 x2 - 1) \<and> x_max = min (2 ^ nat zoom - 1) (max x1 x2 + 1) \<and>
     y_min = max 0 (min y1 y2 - 1) \<and> y_max = min (2 ^ nat zoom - 1) (max y1 y2 + 1) \<and>
     0 \<le> x_min \<and> x_min \<le> x_max \<and> x_max \<le> 2 ^ nat zoom - 1 \<and>
     0 \<le> y_min \<and> y_min \<le> y_max \<and> y_max \<le> 2 ^ nat zoom - 1"
proof -
  from get_tile_range_Inr[OF assms] obtain x1 y1 x2 y2 where
    c: "latlon_to_tile lm (max_lat shanghai) (min_lon shanghai) zoom = Inr (x1, y1)"
       "latlon_to_tile lm (min_lat shanghai) (max_lon shanghai) zoom = Inr (x2, y2)"
       "get_tile_range lm zoom =
         Inr (max 0 (min x1 x2 - 1), PyInt (min (2 ^ nat zoom - 1) (max x1 x2 + 1)),
              max 0 (min y1 y2 - 1), PyInt (min (2 ^ nat zoom - 1) (max y1 y2 + 1)))"
    and b: "0 \<le> x1" "x1 \<le> 2 ^ nat zoom - 1" "0 \<le> y1" "y1 \<le> 2 ^ nat zoom - 1"
       "0 \<le> x2" "x2 \<le> 2 ^ nat zoom - 1" "0 \<le> y2" "y2 \<le> 2 ^ nat zoom - 1"
    by blast
  note xs = clip_ordered[OF b(1,2,5,6)]
  note ys = clip_ordered[OF b(3,4,7,8)]
  show ?thesis
    using c xs ys by blast
qed

theorem get_tile_range_in_grid_witness:
  "libm_accurate rounded_libm \<and> (0::int) \<le> 13 \<and> (13::int) < 1024 \<and>
   (\<exists>x1 y1 x2 y2 x_min x_max y_min y_max.
     latlon_to_tile rounded_libm (max_lat shanghai) (min_lon shanghai) 13 = Inr (x1, y1) \<and>
     latlon_to_tile rounded_libm (min_lat shanghai) (max_lon shanghai) 13 = Inr (x2, y2) \<and>
     get_tile_range rounded_libm 13 = Inr (x_min, PyInt x_max, y_min, PyInt y_max) \<and>
     x_min = max 0 (min x1 x2 - 1) \<and> x_max = min (2 ^ 13 - 1) (max x1 x2 + 1) \<and>
     y_min = max 0 (min y1 y2 - 1) \<and> y_max = min (2 ^ 13 - 1) (max y1 y2 + 1) \<and>
     0 \<le> x_min \<and> x_min \<le> x_max \<and> x_max \<le> 2 ^ 13 - 1 \<and>
     0 \<le> y_min \<and> y_min \<le> y_max \<and> y_max \<le> 2 ^ 13 - 1)"
  using rounded_libm_accurate get_tile_range_in_grid[OF rounded_libm_accurate, of 13] by simp

text \<open>
  Claim C4 as stated, for every zoom level: at zoom 1024 the conversion of \<open>2**zoom\<close> to a
  float raises and no range is returned.
\<close>

theorem get_tile_range_overflow: "get_tile_range rounded_libm 1024 = Inl OverflowError"
  by (simp add: get_tile_range_def overflow_at_1024)

lemma get_tile_range_ordered:
  assumes "libm_accurate lm" "0 \<le> zoom" "zoom < 1024"
  shows "\<exists>x_min x_max y_min y_max.
     get_tile_range lm zoom = Inr (x_min, PyInt x_max, y_min, PyInt y_max) \<and>
     x_min \<le> x_max \<and> y_min \<le> y_max"
proof -
  from get_tile_range_Inr[OF assms] obtain x1 y1 x2 y2 where
    c: "get_tile_range lm zoom =
         Inr (max 0 (min x1 x2 - 1), PyInt (min (2 ^ nat zoom - 1) (max x1 x2 + 1)),
              max 0 (min y1 y2 - 1), PyInt (min (2 ^ nat zoom - 1) (max y1 y2 + 1)))"
    and b: "0 \<le> x1" "x1 \<le> 2 ^ nat zoom - 1" "0 \<le> y1" "y1 \<le> 2 ^ nat zoom - 1"
       "0 \<le> x2" "x2 \<le> 2 ^ nat zoom - 1" "0 \<le> y2" "y2 \<le> 2 ^ nat zoom - 1"
    by blast
  show ?thesis using c clip_ordered(2)[OF b(1,2,5,6)] clip_ordered(2)[OF b(3,4,7,8)] by blast
qed

lemma level_coords_int:
  assumes "x_min \<le> x_max"
  shows "level_coords z (x_min, PyInt x_max, y_min, PyInt y_max) =
     Inr (concat (map (\<lambda>x. map (\<lambda>y. (z, x, y)) [y_min..y_max]) [x_min..x_max]))"
  using assms by (simp add: level_coords_def)

lemma length_rows:
  assumes "x_min \<le> x_max" "y_min \<le> y_max"
  shows "int (length (concat (map (\<lambda>x. map (\<lambda>y. (z, x, y)) [y_min..y_max]) [x_min..x_max]))) =
     (x_max - x_min + 1) * (y_max - y_min + 1)"
  using assms by (simp add: length_concat comp_def sum_list_triv)

lemma set_rows:
  "set (concat (map (\<lambda>x. map (\<lambda>y. (z, x, y)) [y_min..y_max]) [x_min..x_max])) =
     {(z', x, y). z' = z \<and> x_min \<le> x \<and> x \<le> x_max \<and> y_min \<le> y \<and> y \<le> y_max}"
  by auto

lemma sorted_row: "sorted_wrt coord_less (map (\<lambda>y. (z, x, y)) [a..b])"
  by (simp add: sorted_wrt_map)

lemma sorted_rows_gen:
  "sorted_wrt (<) xs \<Longrightarrow>
   sorted_wrt coord_less (concat (map (\<lambda>x. map (\<lambda>y. (z, x, y)) [a..b]) xs))"
proof (induction xs)
  case Nil
  then show ?case by simp
next
  case (Cons x xs)
  then show ?case
    by (auto simp: sorted_wrt_append sorted_row)
qed

lemma sorted_rows:
  "sorted_wrt coord_less (concat (map (\<lambda>x. map (\<lambda>y. (z, x, y)) [a..b]) [c..d]))"
  by (rule sorted_rows_gen) simp

lemma coord_less_zoom: "fst a < fst b \<Longrightarrow> coord_less a b"
  by (cases a; cases b) simp

lemma coord_less_irrefl: "\<not> coord_less c c"
  by (cases c) simp

lemma sorted_coords_distinct: "sorted_wrt coord_less cs \<Longrightarrow> distinct cs"
  by (induction cs) (auto simp: coord_less_irrefl)

lemma gen_levels_ok:
  assumes "libm_accurate lm" "sorted_wrt (<) zs" "\<forall>z\<in>set zs. 0 \<le> z \<and> z < 1024"
  shows "\<exists>cs ls. gen_levels lm zs = (cs, ls, None) \<and>
     int (length cs) =
       (\<Sum>z\<leftarrow>zs. case get_tile_range lm z of
           Inr (x_min, PyInt x_max, y_min, PyInt y_max) \<Rightarrow> (x_max - x_min + 1) * (y_max - y_min + 1)
         | _ \<Rightarrow> 0) \<and>
     sorted_wrt coord_less cs \<and>
     set cs = {(z, x, y). z \<in> set zs \<and>
        (\<exists>x_min x_max y_min y_max.
           get_tile_range lm z = Inr (x_min, PyInt x_max, y_min, PyInt y_max) \<and>
           x_min \<le> x \<and> x \<le> x_max \<and> y_min \<le> y \<and> y \<le> y_max)}"
  using assms(2,3)
proof (induction zs)
  case Nil
  then show ?case by simp
next
  case (Cons z zs)
  let ?cnt = "\<lambda>z. case get_tile_range lm z of
           Inr (x_min, PyInt x_max, y_min, PyInt y_max) \<Rightarrow> (x_max - x_min + 1) * (y_max - y_min + 1)
         | _ \<Rightarrow> 0"
  let ?mem = "\<lambda>zs. {(z, x, y). z \<in> set zs \<and>
        (\<exists>x_min x_max y_min y_max.
           get_tile_range lm z = Inr (x_min, PyInt x_max, y_min, PyInt y_max) \<and>
           x_min \<le> x \<and> x \<le> x_max \<and> y_min \<le> y \<and> y \<le> y_max)}"
  from Cons.prems have z: "0 \<le> z" "z < 1024" and later: "\<forall>z'\<in>set zs. z < z'"
    and rest: "sorted_wrt (<) zs" "\<forall>z\<in>set zs. 0 \<le> z \<and> z < 1024"
    by auto
  from Cons.IH[OF rest] obtain cs ls where
    g: "gen_levels lm zs = (cs, ls, None)"
    and n: "int (length cs) = (\<Sum>z\<leftarrow>zs. ?cnt z)"
    and s: "sorted_wrt coord_less cs"
    and m: "set cs = ?mem zs"
    by blast
  from get_tile_range_ordered[OF assms(1) z] obtain x_min x_max y_min y_max where
    r: "get_tile_range lm z = Inr (x_min, PyInt x_max, y_min, PyInt y_max)"
    and o: "x_min \<le> x_max" "y_min \<le> y_max"
    by blast
  let ?r = "(x_min, PyInt x_max, y_min, PyInt y_max)"
  let ?cs0 = "concat (map (\<lambda>x. map (\<lambda>y. (z, x, y)) [y_min..y_max]) [x_min..x_max])"
  have lc: "level_coords z ?r = Inr ?cs0" by (rule level_coords_int[OF o(1)])
  have cross: "coord_less a b" if "a \<in> set ?cs0" "b \<in> set cs" for a b
  proof -
    have "fst a = z" using that(1) by auto
    moreover have "fst b \<in> set zs" using that(2) unfolding m by auto
    ultimately show ?thesis using later by (intro coord_less_zoom) simp
  qed
  have "gen_levels lm (z # zs) = (?cs0 @ cs, LevelLine z ?r (range_size ?r) # ls, None)"
    using r g lc by simp
  moreover have "int (length (?cs0 @ cs)) = (\<Sum>z\<leftarrow>z # zs. ?cnt z)"
    using n r length_rows[OF o, of z] by simp
  moreover have "sorted_wrt coord_less (?cs0 @ cs)"
    using s cross by (simp add: sorted_wrt_append sorted_rows)
  moreover have "set (?cs0 @ cs) = ?mem (z # zs)"
  proof -
    have "set ?cs0 = ?mem [z]" unfolding set_rows using r by auto
    moreover have "?mem (z # zs) = ?mem [z] \<union> ?mem zs" by auto
    ultimately show ?thesis using m by simp
  qed
  ultimately show ?case by blast
qed

lemma sum_list_upto_conv: "(\<Sum>z\<leftarrow>[a..b]. f z) = (\<Sum>z = a..b. (f z :: int))"
  by (simp add: sum_list_distinct_conv_sum_set)

subsection \<open>The enumeration\<close>

text \<open>
  Claim C5, amended. With a C library that is accurate in the sense of \<open>libm_accurate\<close>,
  for every configuration with \<open>0 \<le> z_start\<close> and \<open>z_end \<le> 1023\<close> (and so for every one
  with \<open>0 \<le> z_start \<le> z_end \<le> 1023\<close>), the generator ends without an exception, and what
  it yields has exactly \<open>\<Sum>z (x_max - x_min + 1) * (y_max - y_min + 1)\<close> triples for \<open>z\<close>
  from \<open>z_start\<close> to \<open>z_end\<close>, has no duplicates, is ascending in zoom, then x, then y,
  and is the same sequence whatever was printed or enumerated before. The triples are
  those of the rectangles of \<open>_get_tile_range\<close>.
\<close>

theorem generate_coordinates_enumeration:
  assumes "libm_accurate lm" and "0 \<le> z_start cfg" and "z_end cfg < 1024"
  shows "\<exists>cs ls. generate_coordinates lm cfg out = (cs, out @ ls, None) \<and>
     int (length cs) =
       (\<Sum>z = z_start cfg..z_end cfg. case get_tile_range lm z of
           Inr (x_min, PyInt x_max, y_min, PyInt y_max) \<Rightarrow> (x_max - x_min + 1) * (y_max - y_min + 1)
         | _ \<Rightarrow> 0) \<and>
     distinct cs \<and> sorted_wrt coord_less cs \<and>
     (\<forall>out'. fst (generate_coordinates lm cfg out') = cs) \<and>
     set cs = {(z, x, y). z_start cfg \<le> z \<and> z \<le> z_end cfg \<and>
        (\<exists>x_min x_max y_min y_max.
           get_tile_range lm z = Inr (x_min, PyInt x_max, y_min, PyInt y_max) \<and>
           x_min \<le> x \<and> x \<le> x_max \<and> y_min \<le> y \<and> y \<le> y_max)}"
proof -
  let ?zs = "[z_start cfg..z_end cfg]"
  have "sorted_wrt (<) ?zs" by (rule sorted_wrt_upto)
  moreover have "\<forall>z\<in>set ?zs. 0 \<le> z \<and> z < 1024" using assms(2,3) by auto
  ultimately obtain cs ls where g: "gen_levels lm ?zs = (cs, ls, None)"
    and n: "int (length cs) =
       (\<Sum>z\<leftarrow>?zs. case get_tile_range lm z of
           Inr (x_min, PyInt x_max, y_min, PyInt y_max) \<Rightarrow> (x_max - x_min + 1) * (y_max - y_min + 1)
         | _ \<Rightarrow> 0)"
    and s: "sorted_wrt coord_less cs"
    and m: "set cs = {(z, x, y). z \<in> set ?zs \<and>
        (\<exists>x_min x_max y_min y_max.
           get_tile_range lm z = Inr (x_min, PyInt x_max, y_min, PyInt y_max) \<and>
           x_min \<le> x \<and> x \<le> x_max \<and> y_min \<le> y \<and> y \<le> y_max)}"
    using gen_levels_ok[OF assms(1)] by blast
  have "generate_coordinates lm cfg out = (cs, out @ ls, None)"
    using g by (simp add: generate_coordinates_def)
  moreover have "int (length cs) =
       (\<Sum>z = z_start cfg..z_end cfg. case get_tile_range lm z of
           Inr (x_min, PyInt x_max, y_min, PyInt y_max) \<Rightarrow> (x_max - x_min + 1) * (y_max - y_min + 1)
         | _ \<Rightarrow> 0)"
    using n by (simp only: sum_list_upto_conv)
  moreover have "distinct cs" using s by (rule sorted_coords_distinct)
  moreover have "\<forall>out'. fst (generate_coordinates lm cfg out') = cs"
    using g by (simp add: generate_coordinates_def)
  moreover have "set cs = {(z, x, y). z_start cfg \<le> z \<and> z \<le> z_end cfg \<and>
        (\<exists>x_min x_max y_min y_max.
           get_tile_range lm z = Inr (x_min, PyInt x_max, y_min, PyInt y_max) \<and>
           x_min \<le> x \<and> x \<le> x_max \<and> y_min \<le> y \<and> y \<le> y_max)}"
    unfolding m by auto
  ultimately show ?thesis using s by blast
qed

theorem generate_coordinates_enumeration_witness:
  "libm_accurate rounded_libm \<and> 0 \<le> z_start main_config \<and>
   z_start main_config \<le> z_end main_config \<and> z_end main_config < 1024 \<and>
   (\<exists>cs ls. generate_coordinates rounded_libm main_config [] = (cs, ls, None) \<and>
     distinct cs \<and> sorted_wrt coord_less cs)"
proof -
  have h: "0 \<le> z_start main_config" "z_end main_config < 1024"
    "z_start main_config \<le> z_end main_config"
    by (simp_all add: main_config_def)
  show ?thesis
    using h rounded_libm_accurate
      generate_coordinates_enumeration [OF rounded_libm_accurate h(1,2), of "[]"]
    by auto
qed

lemma neg_zoom_float:
  assumes "zoom < 0"
  shows "\<exists>nf. pow2 zoom = PyFloat nf \<and> 0 \<le> nf \<and> nf \<le> 1 / 2"
proof (cases "- 1074 \<le> zoom")
  case True
  have "2 powr (of_int zoom) \<le> (2::real) powr (- 1)"
    using assms by (intro powr_mono) simp_all
  then have "2 powr (of_int zoom) \<le> (1 / 2 :: real)" by (simp add: powr_minus)
  then show ?thesis using True assms by (simp add: pow2_def)
next
  case False
  then show ?thesis using assms by (simp add: pow2_def)
qed

lemma tiny_tile:
  assumes "0 \<le> f" "f \<le> 9 / 10" "0 \<le> nf" "nf \<le> 1 / 2"
  shows "py_int (rnd (f * nf)) = Inr 0"
proof -
  have p0: "0 \<le> f * nf" using assms by simp
  have "f * nf \<le> 9 / 10 * (1 / 2)" using assms by (intro mult_mono) simp_all
  then have p1: "f * nf \<le> 9 / 20" by simp
  have "rnd (f * nf) \<le> 9 / 20 * (1001 / 1000)" by (rule rnd_in(2)[OF order_refl p0 p1])
  then have u: "rnd (f * nf) < 1" by simp
  have "0 * (999 / 1000) \<le> rnd (f * nf)" by (rule rnd_in(1)[OF order_refl p0 order_refl])
  then have l: "0 \<le> rnd (f * nf)" by simp
  have "\<bar>rnd (f * nf)\<bar> < 2 ^ 1024"
  proof -
    have "(1::real) \<le> 2 ^ 1024" by simp
    with u l show ?thesis by linarith
  qed
  moreover have "\<lfloor>rnd (f * nf)\<rfloor> = 0" using u l by (simp add: floor_eq_iff)
  ultimately show ?thesis using l by (simp add: py_int_def)
qed

lemma get_tile_range_negative:
  assumes "libm_accurate lm" "zoom < 0"
  shows "\<exists>mt. get_tile_range lm zoom = Inr (0, PyFloat mt, 0, PyFloat mt)"
proof -
  from neg_zoom_float[OF assms(2)] obtain nf where
    nf: "pow2 zoom = PyFloat nf" "0 \<le> nf" "nf \<le> 1 / 2" by blast
  have af: "as_float (pow2 zoom) = Inr nf" by (simp add: nf(1) as_float_def)
  have corner: "latlon_to_tile lm lat lon zoom = Inr (0, 0)"
    if "30 \<le> lat" "lat \<le> 32" "119 \<le> lon" "lon \<le> 124" for lat lon
  proof -
    have fx: "0 \<le> rnd (rnd (lon + 180) / 360)" "rnd (rnd (lon + 180) / 360) \<le> 9 / 10"
      using x_fraction[OF that(3,4)] by simp_all
    note fy = y_fraction[OF assms(1) that(1,2)]
    show ?thesis
      using af tiny_tile[OF fx nf(2,3)] tiny_tile[OF fy nf(2,3)]
      by (simp add: latlon_to_tile_def Let_def)
  qed
  have one: "rnd 1 = 1" using rnd_pow2[of 0] by simp
  define mt where "mt = rnd (nf - 1)"
  have "nf - 1 \<le> 0" using nf(3) by simp
  then have mt: "mt \<le> 0" unfolding mt_def by (rule rnd_nonpos)
  have max_tile: "num_op (-) (-) (pow2 zoom) (PyInt 1) = PyFloat mt"
    by (simp add: nf(1) num_op_def to_float_def one mt_def)
  have pick: "py_min (PyFloat mt) (PyInt 1) = PyFloat mt"
    using mt by (simp add: py_min_def num_val_def)
  have "get_tile_range lm zoom = Inr (0, PyFloat mt, 0, PyFloat mt)"
    using corner[OF shanghai_corners(1,2,3,4)] corner[OF shanghai_corners(5,6,7,8)]
    by (simp add: get_tile_range_def Let_def max_tile pick)
  then show ?thesis by blast
qed

lemma generate_coordinates_negative:
  assumes "libm_accurate lm" "z_start cfg < 0" "z_start cfg \<le> z_end cfg"
  shows "fst (generate_coordinates lm cfg out) = [] \<and>
     snd (snd (generate_coordinates lm cfg out)) = Some TypeError"
proof -
  from get_tile_range_negative[OF assms(1,2)] obtain mt where
    r: "get_tile_range lm (z_start cfg) = Inr (0, PyFloat mt, 0, PyFloat mt)" by blast
  have zs: "[z_start cfg..z_end cfg] = z_start cfg # [z_start cfg + 1..z_end cfg]"
    using assms(3) by (simp add: upto_rec1)
  show ?thesis
    by (simp add: generate_coordinates_def zs r level_coords_def)
qed

text \<open>
  Claim C5 as stated, for every configuration with \<open>z_start \<le> z_end\<close>: with both at 1024
  the generator raises \<open>OverflowError\<close> before it yields anything, and with both at -1 the
  upper ends of the range are floats and \<open>range\<close> raises \<open>TypeError\<close>.
\<close>

theorem generate_coordinates_raises:
  "generate_coordinates rounded_libm (main_config\<lparr>z_start := 1024, z_end := 1024\<rparr>) [] =
     ([], [], Some OverflowError) \<and>
   fst (generate_coordinates rounded_libm (main_config\<lparr>z_start := - 1, z_end := - 1\<rparr>) []) = [] \<and>
   snd (snd (generate_coordinates rounded_libm (main_config\<lparr>z_start := - 1, z_end := - 1\<rparr>) [])) =
     Some TypeError"
proof -
  have "[1024..1024] = [1024::int]" by (simp add: upto_rec1)
  then have a: "generate_coordinates rounded_libm (main_config\<lparr>z_start := 1024, z_end := 1024\<rparr>) [] =
     ([], [], Some OverflowError)"
    by (simp add: generate_coordinates_def main_config_def get_tile_range_def overflow_at_1024)
  have "z_start (main_config\<lparr>z_start := - 1, z_end := - 1\<rparr>) < 0"
    "z_start (main_config\<lparr>z_start := - 1, z_end := - 1\<rparr>)
      \<le> z_end (main_config\<lparr>z_start := - 1, z_end := - 1\<rparr>)"
    by simp_all
  from generate_coordinates_negative[OF rounded_libm_accurate this, of "[]"] a
  show ?thesis by simp
qed

subsection \<open>Two tile columns computed\<close>

text \<open>
  The x index of the north-west corner is 6846 at zoom 13, and at zoom 51 it is
  1881816594297797, where exact arithmetic would give 1881816594297796.
\<close>

lemma pow2_exact:
  assumes "0 \<le> zoom" "zoom < 1024"
  shows "as_float (pow2 zoom) = Inr (2 ^ nat zoom)"
proof -
  have "nat zoom \<le> 1023" using assms by simp
  then have "(2::real) ^ nat zoom \<le> 2 ^ 1023" by (intro power_increasing) auto
  also have "\<dots> < (2::real) ^ 1024" by simp
  finally have "\<bar>(2::real) ^ nat zoom\<bar> < 2 ^ 1024" by simp
  then show ?thesis
    using assms by (simp add: as_float_def pow2_def float_of_int_def rnd_pow2)
qed

lemma latlon_to_tile_x:
  assumes "libm_accurate lm" "0 \<le> zoom" "zoom < 1024"
    and "30 \<le> lat" "lat \<le> 32" "119 \<le> lon" "lon \<le> 124"
  shows "\<exists>y. latlon_to_tile lm lat lon zoom =
     Inr (\<lfloor>rnd (rnd (rnd (lon + 180) / 360) * 2 ^ nat zoom)\<rfloor>, y)"
proof -
  let ?N = "(2::real) ^ nat zoom"
  have N: "0 < ?N" "?N * (999 / 1000) \<le> ?N" "?N \<le> ?N * (1001 / 1000)" by simp_all
  have k: "nat zoom \<le> 1023" using assms(2,3) by simp
  have fx: "0 \<le> rnd (rnd (lon + 180) / 360)" "rnd (rnd (lon + 180) / 360) \<le> 9 / 10"
    using x_fraction[OF assms(6,7)] by simp_all
  note fy = y_fraction[OF assms(1,4,5)]
  note bx = scaled_below[OF fx N]
  note by' = scaled_below[OF fy N]
  have "\<not> 2 ^ 1024 \<le> \<bar>rnd (rnd (rnd (lon + 180) / 360) * ?N)\<bar>"
  proof -
    have "?N \<le> 2 ^ 1024" using k by (intro power_increasing) auto
    with bx show ?thesis by linarith
  qed
  then have px: "py_int (rnd (rnd (rnd (lon + 180) / 360) * ?N)) =
      Inr \<lfloor>rnd (rnd (rnd (lon + 180) / 360) * ?N)\<rfloor>"
    using bx(1) by (simp add: py_int_def)
  from py_int_below[OF by' k] obtain yi where
    "py_int (rnd (rnd (rnd (1 - rnd (libm_asinh lm (libm_tan lm (radians lat)) / py_pi)) / 2) * ?N))
       = Inr yi" by blast
  then have "latlon_to_tile lm lat lon zoom =
      Inr (\<lfloor>rnd (rnd (rnd (lon + 180) / 360) * ?N)\<rfloor>, yi)"
    using pow2_exact[OF assms(2,3)] px by (simp add: latlon_to_tile_def Let_def)
  then show ?thesis by blast
qed

lemma west_fraction: "rnd (rnd (min_lon shanghai + 180) / 360) = 1881816594297797 / 2 ^ 51"
  by (simp only: shanghai_def bounds.simps min_lon_double min_lon_plus_180 min_lon_fraction)

lemma west_column_13: "\<lfloor>rnd (1881816594297797 / 2 ^ 51 * 2 ^ 13)\<rfloor> = (6846::int)"
proof -
  have "rnd (1881816594297797 / 2 ^ 51 * 2 ^ 13) =
      of_int (rne (1881816594297797 / 2 ^ 51 * 2 ^ 13 * 2 ^ 52 / 2 ^ 12)) * 2 ^ 12 / 2 ^ 52"
    by (rule rnd_above_one) simp_all
  also have "rne (1881816594297797 / 2 ^ 51 * 2 ^ 13 * 2 ^ 52 / 2 ^ 12) = 7527266377191188"
    by (simp add: rne_def)
  finally have r: "rnd (1881816594297797 / 2 ^ 51 * 2 ^ 13) = 7527266377191188 * 2 ^ 12 / 2 ^ 52"
    by simp
  show ?thesis by (simp only: r) simp
qed

lemma west_column_51: "\<lfloor>rnd (1881816594297797 / 2 ^ 51 * 2 ^ 51)\<rfloor> = (1881816594297797::int)"
proof -
  have "rnd (1881816594297797 / 2 ^ 51 * 2 ^ 51) =
      of_int (rne (1881816594297797 / 2 ^ 51 * 2 ^ 51 * 2 ^ 52 / 2 ^ 50)) * 2 ^ 50 / 2 ^ 52"
    by (rule rnd_above_one) simp_all
  also have "rne (1881816594297797 / 2 ^ 51 * 2 ^ 51 * 2 ^ 52 / 2 ^ 50) = 7527266377191188"
    by (simp add: rne_def)
  finally have r: "rnd (1881816594297797 / 2 ^ 51 * 2 ^ 51) = 7527266377191188 * 2 ^ 50 / 2 ^ 52"
    by simp
  show ?thesis by (simp only: r) simp
qed

lemma west_column_examples:
  assumes "libm_accurate lm"
  shows "\<exists>y. latlon_to_tile lm (max_lat shanghai) (min_lon shanghai) 13 = Inr (6846, y)"
    and "\<exists>y. latlon_to_tile lm (max_lat shanghai) (min_lon shanghai) 51 = Inr (1881816594297797, y)"
proof -
  show "\<exists>y. latlon_to_tile lm (max_lat shanghai) (min_lon shanghai) 13 = Inr (6846, y)"
    using latlon_to_tile_x[OF assms _ _ shanghai_corners(1,2,3,4), where zoom = 13]
    by (simp only: west_fraction nat_numeral west_column_13)
  show "\<exists>y. latlon_to_tile lm (max_lat shanghai) (min_lon shanghai) 51 = Inr (1881816594297797, y)"
    using latlon_to_tile_x[OF assms _ _ shanghai_corners(1,2,3,4), where zoom = 51]
    by (simp only: west_fraction nat_numeral west_column_51)
qed

section \<open>Properties of the fetcher and the scheduler\<close>

subsection \<open>Evaluating paths\<close>

lemma tile_path_example:
  "tile_path main_config (13, 6845, 3345) = ''./shanghai_tiles/13/6845/3345.png''"
  by (simp add: tile_path_def path_join_def str_int_def digits.simps main_config_def)

lemma dirname_example:
  "dirname ''./shanghai_tiles/13/6845/3345.png'' = ''./shanghai_tiles/13/6845''"
  by (simp add: dirname_def rstrip_sep_def)

lemma ancestors_example:
  "ancestors ''./shanghai_tiles/13/6845'' =
     [''.'', ''./shanghai_tiles'', ''./shanghai_tiles/13'', ''./shanghai_tiles/13/6845'']"
  by (simp add: ancestors_def upt_rec)

lemma range3: "[0..<3] = [0, 1, 2]"
  by (simp add: upt_rec)

lemma download_tile_skip:
  assumes "\<not> overwrite (config d)" "path_exists w (tile_path (config d) c)"
  shows "download_tile c d w = (Inr False, d, w)"
  using assms by (simp add: download_tile_def)

lemma makedirs_Inr:
  assumes "makedirs name w = Inr w1"
  shows "w1 = w\<lparr>dirs := dirs w \<union> set (ancestors name)\<rparr>"
  using assms by (auto simp: makedirs_def split: list.splits option.splits)

lemma attempts_downloaded:
  "attempts url path c rs d w = (b, d', w') \<Longrightarrow>
   config d' = config d \<and> downloaded d' = (if b then downloaded d + 1 else downloaded d)"
proof (induction rs arbitrary: w)
  case Nil
  then show ?case by simp
next
  case (Cons retry rest)
  show ?case
  proof (cases "server w (length (requests w))")
    case (Raises msg)
    with Cons.prems show ?thesis by (auto simp: Let_def dest: Cons.IH)
  next
    case (Response status_code content)
    show ?thesis
    proof (cases "status_code = 200")
      case False
      with Response Cons.prems show ?thesis by (auto simp: Let_def dest: Cons.IH)
    next
      case True
      show ?thesis
      proof (cases "write_error w path")
        case None
        with True Response Cons.prems show ?thesis by (auto simp: Let_def)
      next
        case (Some msg)
        with True Response Cons.prems show ?thesis by (auto simp: Let_def dest: Cons.IH)
      qed
    qed
  qed
qed

lemma attempts_all_raise:
  assumes "\<forall>k<length rs. \<exists>msg. server w (length (requests w) + k) = Raises msg"
  shows "\<exists>w'. attempts url path c rs d w = (False, d, w') \<and>
     requests w' = requests w @ replicate (length rs) url \<and>
     sleeps w' = sleeps w @ map (\<lambda>r. 2 ^ r) rs \<and>
     files w' = files w \<and> dirs w' = dirs w"
  using assms
proof (induction rs arbitrary: w)
  case Nil
  then show ?case by simp
next
  case (Cons r rs)
  from Cons.prems obtain msg where m: "server w (length (requests w)) = Raises msg"
    by fastforce
  let ?w2 = "w\<lparr>requests := requests w @ [url],
               stdout := stdout w @ [FailLine c msg], sleeps := sleeps w @ [2 ^ r]\<rparr>"
  have step: "attempts url path c (r # rs) d w = attempts url path c rs d ?w2"
    using m by (simp add: Let_def)
  have "\<forall>k<length rs. \<exists>msg. server ?w2 (length (requests ?w2) + k) = Raises msg"
  proof (intro allI impI)
    fix k assume "k < length rs"
    then have "Suc k < length (r # rs)" by simp
    with Cons.prems obtain msg' where "server w (length (requests w) + Suc k) = Raises msg'"
      by blast
    then show "\<exists>msg. server ?w2 (length (requests ?w2) + k) = Raises msg" by simp
  qed
  from Cons.IH[OF this] obtain w' where
    "attempts url path c rs d ?w2 = (False, d, w')"
    "requests w' = requests ?w2 @ replicate (length rs) url"
    "sleeps w' = sleeps ?w2 @ map (\<lambda>r. 2 ^ r) rs"
    "files w' = files ?w2" "dirs w' = dirs ?w2"
    by blast
  then show ?case using step by (simp add: replicate_app_Cons_same)
qed

lemma attempts_all_refused:
  assumes "\<forall>k<length rs. \<exists>s body. server w (length (requests w) + k) = Response s body \<and> s \<noteq> 200"
  shows "\<exists>w'. attempts url path c rs d w = (False, d, w') \<and>
     requests w' = requests w @ replicate (length rs) url \<and>
     sleeps w' = sleeps w @ replicate (length rs) 1 \<and>
     files w' = files w \<and> dirs w' = dirs w \<and> stdout w' = stdout w"
  using assms
proof (induction rs arbitrary: w)
  case Nil
  then show ?case by simp
next
  case (Cons r rs)
  from Cons.prems obtain s body where
    m: "server w (length (requests w)) = Response s body" "s \<noteq> 200"
    by fastforce
  let ?w2 = "w\<lparr>requests := requests w @ [url], sleeps := sleeps w @ [1]\<rparr>"
  have step: "attempts url path c (r # rs) d w = attempts url path c rs d ?w2"
    using m by (simp add: Let_def)
  have "\<forall>k<length rs. \<exists>s body. server ?w2 (length (requests ?w2) + k) = Response s body \<and> s \<noteq> 200"
  proof (intro allI impI)
    fix k assume "k < length rs"
    then have "Suc k < length (r # rs)" by simp
    with Cons.prems obtain s' body' where
      "server w (length (requests w) + Suc k) = Response s' body'" "s' \<noteq> 200"
      by blast
    then show "\<exists>s body. server ?w2 (length (requests ?w2) + k) = Response s body \<and> s \<noteq> 200"
      by simp
  qed
  from Cons.IH[OF this] obtain w' where
    "attempts url path c rs d ?w2 = (False, d, w')"
    "requests w' = requests ?w2 @ replicate (length rs) url"
    "sleeps w' = sleeps ?w2 @ replicate (length rs) 1"
    "files w' = files ?w2" "dirs w' = dirs ?w2" "stdout w' = stdout ?w2"
    by blast
  then show ?case using step by (simp add: replicate_app_Cons_same)
qed

lemma download_tile_retry_loop:
  assumes "overwrite (config d) \<or> \<not> path_exists w (tile_path (config d) c)"
    and "makedirs (dirname (tile_path (config d) c)) w = Inr w1"
  shows "download_tile c d w =
     (case attempts (tile_url c) (tile_path (config d) c) c [0, 1, 2] d w1 of
        (b, d', w') \<Rightarrow> (Inr b, d', w'))"
  using assms by (auto simp: download_tile_def Let_def range3)

subsection \<open>The skip path\<close>

text \<open>
  Claim C7. When the target path exists and \<open>overwrite\<close> is false, \<open>download_tile\<close>
  returns at once with the value of a skipped tile (\<open>False\<close>), downloader and world as
  they were; calling it again on what it returned gives the same, and neither call makes
  an HTTP request or sleeps.
\<close>

theorem download_tile_skip_idempotent:
  assumes "\<not> overwrite (config d)" and "path_exists w (tile_path (config d) c)"
  shows "download_tile c d w = (Inr False, d, w) \<and>
     (case download_tile c d w of (r1, d1, w1) \<Rightarrow>
        (case download_tile c d1 w1 of (r2, d2, w2) \<Rightarrow>
           r1 = Inr False \<and> r2 = Inr False \<and>
           requests w1 = requests w \<and> requests w2 = requests w \<and> sleeps w2 = sleeps w))"
  using assms by (simp add: download_tile_def)

theorem download_tile_skip_idempotent_witness:
  "\<not> overwrite (config (new_downloader main_config)) \<and>
   path_exists tile_on_disk (tile_path (config (new_downloader main_config)) (13, 6845, 3345)) \<and>
   download_tile (13, 6845, 3345) (new_downloader main_config) tile_on_disk =
     (Inr False, new_downloader main_config, tile_on_disk)"
  using download_tile_skip_idempotent [of "new_downloader main_config" tile_on_disk "(13, 6845, 3345)"]
  by (simp add: new_downloader_def tile_path_example path_exists_def tile_on_disk_def
      quiet_world_def) (simp add: main_config_def)

text \<open>
  Claim C10. When the target path exists and \<open>overwrite\<close> is false, the files and the
  directories after \<open>download_tile\<close> are those before it: the existence check comes
  before \<open>os.makedirs\<close>, so nothing is created, also where creating the directory would
  have raised.
\<close>

theorem download_tile_skip_leaves_filesystem:
  assumes "\<not> overwrite (config d)" and "path_exists w (tile_path (config d) c)"
  shows "case download_tile c d w of (r, d', w') \<Rightarrow>
     r = Inr False \<and> files w' = files w \<and> dirs w' = dirs w"
  using assms by (simp add: download_tile_def)

theorem download_tile_skip_leaves_filesystem_witness:
  "\<not> overwrite (config (new_downloader main_config)) \<and>
   path_exists (tile_on_disk\<lparr>mkdir_error := (\<lambda>p. Some ''Permission denied'')\<rparr>)
     (tile_path (config (new_downloader main_config)) (13, 6845, 3345)) \<and>
   (case download_tile (13, 6845, 3345) (new_downloader main_config)
           (tile_on_disk\<lparr>mkdir_error := (\<lambda>p. Some ''Permission denied'')\<rparr>) of
      (r, d', w') \<Rightarrow> r = Inr False \<and> files w' = files tile_on_disk \<and> dirs w' = dirs tile_on_disk)"
  using download_tile_skip_leaves_filesystem
    [of "new_downloader main_config" "tile_on_disk\<lparr>mkdir_error := (\<lambda>p. Some ''Permission denied'')\<rparr>"
        "(13, 6845, 3345)"]
  by (simp add: new_downloader_def tile_path_example path_exists_def tile_on_disk_def
      quiet_world_def) (simp add: main_config_def)

subsection \<open>The retry loop\<close>

text \<open>
  Claim C8. When the fetch reaches the retry loop (the tile is not skipped and the
  directory could be created) and each of its HTTP requests raises, \<open>download_tile\<close>
  makes exactly three requests, sleeps 1, 2 and 4 seconds after them, and returns
  \<open>False\<close>; no file is written.
\<close>

theorem download_tile_transport_errors:
  assumes "overwrite (config d) \<or> \<not> path_exists w (tile_path (config d) c)"
    and "makedirs (dirname (tile_path (config d) c)) w = Inr w1"
    and "\<forall>k<3. \<exists>msg. server w (length (requests w) + k) = Raises msg"
  shows "\<exists>w'. download_tile c d w = (Inr False, d, w') \<and>
     requests w' = requests w @ [tile_url c, tile_url c, tile_url c] \<and>
     sleeps w' = sleeps w @ [1, 2, 4] \<and>
     files w' = files w"
proof -
  have w1: "w1 = w\<lparr>dirs := dirs w \<union> set (ancestors (dirname (tile_path (config d) c)))\<rparr>"
    using assms(2) by (rule makedirs_Inr)
  have "\<forall>k<length [0::nat, 1, 2]. \<exists>msg. server w1 (length (requests w1) + k) = Raises msg"
    using assms(3) by (simp add: w1)
  from attempts_all_raise[OF this, of "tile_url c" "tile_path (config d) c" c d]
  obtain w' where a: "attempts (tile_url c) (tile_path (config d) c) c [0, 1, 2] d w1 = (False, d, w')"
    "requests w' = requests w1 @ replicate (length [0::nat, 1, 2]) (tile_url c)"
    "sleeps w' = sleeps w1 @ map (\<lambda>r. 2 ^ r) [0::nat, 1, 2]"
    "files w' = files w1"
    by blast
  have "download_tile c d w = (Inr False, d, w')"
    using download_tile_retry_loop[OF assms(1,2)] a(1) by simp
  moreover have "requests w' = requests w @ [tile_url c, tile_url c, tile_url c]"
    using a(2) by (simp add: w1 numeral_3_eq_3)
  moreover have "sleeps w' = sleeps w @ [1, 2, 4]" using a(3) by (simp add: w1)
  moreover have "files w' = files w" using a(4) by (simp add: w1)
  ultimately show ?thesis by blast
qed

lemma makedirs_example:
  "makedirs ''./shanghai_tiles/13/6845'' (quiet_world\<lparr>server := srv\<rparr>) =
     Inr (quiet_world\<lparr>server := srv,
       dirs := {''.'', ''./shanghai_tiles'', ''./shanghai_tiles/13'', ''./shanghai_tiles/13/6845''}\<rparr>)"
  by (simp add: makedirs_def ancestors_example quiet_world_def)

theorem download_tile_transport_errors_witness:
  "(overwrite (config (new_downloader main_config)) \<or>
      \<not> path_exists offline (tile_path (config (new_downloader main_config)) (13, 6845, 3345))) \<and>
   (\<exists>w1. makedirs (dirname (tile_path (config (new_downloader main_config)) (13, 6845, 3345))) offline
      = Inr w1) \<and>
   server offline 0 = Raises ''timed out'' \<and> server offline 1 = Raises ''timed out'' \<and>
   server offline 2 = Raises ''timed out'' \<and> requests offline = [] \<and>
   (\<exists>w'. download_tile (13, 6845, 3345) (new_downloader main_config) offline =
        (Inr False, new_downloader main_config, w') \<and>
      requests w' = requests offline @ [tile_url (13, 6845, 3345), tile_url (13, 6845, 3345),
        tile_url (13, 6845, 3345)] \<and>
      sleeps w' = sleeps offline @ [1, 2, 4] \<and> files w' = files offline)"
proof -
  have h1: "overwrite (config (new_downloader main_config)) \<or>
      \<not> path_exists offline (tile_path (config (new_downloader main_config)) (13, 6845, 3345))"
    by (simp add: new_downloader_def tile_path_example path_exists_def offline_def quiet_world_def)
  have h2: "makedirs (dirname (tile_path (config (new_downloader main_config)) (13, 6845, 3345))) offline
      = Inr (quiet_world\<lparr>server := (\<lambda>k. Raises ''timed out''),
       dirs := {''.'', ''./shanghai_tiles'', ''./shanghai_tiles/13'', ''./shanghai_tiles/13/6845''}\<rparr>)"
    by (simp add: new_downloader_def tile_path_example dirname_example offline_def makedirs_example)
  have h3: "\<forall>k<3. \<exists>msg. server offline (length (requests offline) + k) = Raises msg"
    by (simp add: offline_def)
  have h4: "server offline 0 = Raises ''timed out''" "server offline 1 = Raises ''timed out''"
    "server offline 2 = Raises ''timed out''" "requests offline = []"
    by (simp_all add: offline_def quiet_world_def)
  show ?thesis
    using h1 h2 h4 download_tile_transport_errors [OF h1 h2 h3] by blast
qed

text \<open>
  Claim C9. When the fetch reaches the retry loop and the server answers each of its
  three requests with a status other than 200, \<open>download_tile\<close> sleeps one second after
  each answer and returns \<open>False\<close>, and the files are those from before: nothing is
  created or written at the target path.
\<close>

theorem download_tile_http_errors:
  assumes "overwrite (config d) \<or> \<not> path_exists w (tile_path (config d) c)"
    and "makedirs (dirname (tile_path (config d) c)) w = Inr w1"
    and "\<forall>k<3. \<exists>s body. server w (length (requests w) + k) = Response s body \<and> s \<noteq> 200"
  shows "\<exists>w'. download_tile c d w = (Inr False, d, w') \<and>
     requests w' = requests w @ [tile_url c, tile_url c, tile_url c] \<and>
     sleeps w' = sleeps w @ [1, 1, 1] \<and>
     files w' = files w"
proof -
  have w1: "w1 = w\<lparr>dirs := dirs w \<union> set (ancestors (dirname (tile_path (config d) c)))\<rparr>"
    using assms(2) by (rule makedirs_Inr)
  have "\<forall>k<length [0::nat, 1, 2]. \<exists>s body.
      server w1 (length (requests w1) + k) = Response s body \<and> s \<noteq> 200"
    using assms(3) by (simp add: w1)
  from attempts_all_refused[OF this, of "tile_url c" "tile_path (config d) c" c d]
  obtain w' where a: "attempts (tile_url c) (tile_path (config d) c) c [0, 1, 2] d w1 = (False, d, w')"
    "requests w' = requests w1 @ replicate (length [0::nat, 1, 2]) (tile_url c)"
    "sleeps w' = sleeps w1 @ replicate (length [0::nat, 1, 2]) 1"
    "files w' = files w1"
    by blast
  have "download_tile c d w = (Inr False, d, w')"
    using download_tile_retry_loop[OF assms(1,2)] a(1) by simp
  moreover have "requests w' = requests w @ [tile_url c, tile_url c, tile_url c]"
    using a(2) by (simp add: w1 numeral_3_eq_3)
  moreover have "sleeps w' = sleeps w @ [1, 1, 1]" using a(3) by (simp add: w1 numeral_3_eq_3)
  moreover have "files w' = files w" using a(4) by (simp add: w1)
  ultimately show ?thesis by blast
qed

theorem download_tile_http_errors_witness:
  "(overwrite (config (new_downloader main_config)) \<or>
      \<not> path_exists server_down (tile_path (config (new_downloader main_config)) (13, 6845, 3345))) \<and>
   (\<exists>w1. makedirs (dirname (tile_path (config (new_downloader main_config)) (13, 6845, 3345))) server_down
      = Inr w1) \<and>
   server server_down 0 = Response 500 ''error'' \<and> server server_down 1 = Response 500 ''error'' \<and>
   server server_down 2 = Response 500 ''error'' \<and> requests server_down = [] \<and>
   (\<exists>w'. download_tile (13, 6845, 3345) (new_downloader main_config) server_down =
        (Inr False, new_downloader main_config, w') \<and>
      sleeps w' = sleeps server_down @ [1, 1, 1] \<and> files w' = files server_down \<and>
      tile_path main_config (13, 6845, 3345) \<notin> dom (files w'))"
proof -
  have h1: "overwrite (config (new_downloader main_config)) \<or>
      \<not> path_exists server_down (tile_path (config (new_downloader main_config)) (13, 6845, 3345))"
    by (simp add: new_downloader_def tile_path_example path_exists_def server_down_def quiet_world_def)
  have h2: "makedirs (dirname (tile_path (config (new_downloader main_config)) (13, 6845, 3345))) server_down
      = Inr (quiet_world\<lparr>server := (\<lambda>k. Response 500 ''error''),
       dirs := {''.'', ''./shanghai_tiles'', ''./shanghai_tiles/13'', ''./shanghai_tiles/13/6845''}\<rparr>)"
    by (simp add: new_downloader_def tile_path_example dirname_example server_down_def makedirs_example)
  have h3: "\<forall>k<3. \<exists>s body. server server_down (length (requests server_down) + k) = Response s body \<and> s \<noteq> 200"
    by (simp add: server_down_def)
  have h4: "server server_down 0 = Response 500 ''error''"
    "server server_down 1 = Response 500 ''error''"
    "server server_down 2 = Response 500 ''error''" "requests server_down = []"
    by (simp_all add: server_down_def quiet_world_def)
  have "files server_down = Map.empty" by (simp add: server_down_def quiet_world_def)
  then show ?thesis
    using h1 h2 h4 download_tile_http_errors [OF h1 h2 h3] by auto
qed

subsection \<open>The counter of the downloader\<close>

text \<open>
  Claim C3, amended. \<open>download_tile\<close> has no access to the counters of the collecting
  loop (\<open>i\<close> and \<open>success\<close> are local variables of \<open>run\<close>), and of the downloader it
  changes only \<open>downloaded\<close>: by one more exactly when it returns \<open>True\<close>, and not at all
  when the tile is skipped, fails or an exception leaves the call.
\<close>

theorem download_tile_downloaded:
  "case download_tile c d w of (r, d', w') \<Rightarrow>
     config d' = config d \<and>
     downloaded d' = (if r = Inr True then downloaded d + 1 else downloaded d)"
proof (cases "\<not> overwrite (config d) \<and> path_exists w (tile_path (config d) c)")
  case True
  then show ?thesis by (simp add: download_tile_def Let_def)
next
  case False
  show ?thesis
  proof (cases "makedirs (dirname (tile_path (config d) c)) w")
    case (Inl e)
    with False show ?thesis by (simp add: download_tile_def Let_def)
  next
    case (Inr w1)
    obtain b d' w' where a: "attempts (tile_url c) (tile_path (config d) c) c [0..<3] d w1 = (b, d', w')"
      by (cases "attempts (tile_url c) (tile_path (config d) c) c [0..<3] d w1") auto
    from attempts_downloaded[OF a] False Inr a show ?thesis
      by (simp add: download_tile_def Let_def)
  qed
qed

lemma download_example:
  "download_tile (13, 6845, 3345) (new_downloader main_config) quiet_world =
     (Inr True, \<lparr> config = main_config, downloaded = 1 \<rparr>,
      quiet_world\<lparr>
        dirs := {''.'', ''./shanghai_tiles'', ''./shanghai_tiles/13'', ''./shanghai_tiles/13/6845''},
        requests := [tile_url (13, 6845, 3345)],
        files := [''./shanghai_tiles/13/6845/3345.png'' \<mapsto> ''PNG'']\<rparr>)"
proof -
  have "makedirs ''./shanghai_tiles/13/6845'' quiet_world =
     Inr (quiet_world\<lparr>dirs := {''.'', ''./shanghai_tiles'', ''./shanghai_tiles/13'', ''./shanghai_tiles/13/6845''}\<rparr>)"
    by (simp add: makedirs_def ancestors_example quiet_world_def)
  moreover have "\<not> path_exists quiet_world ''./shanghai_tiles/13/6845/3345.png''"
    by (simp add: path_exists_def quiet_world_def)
  ultimately show ?thesis
    by (simp add: download_tile_def new_downloader_def tile_path_example dirname_example range3 Let_def)
      (simp add: quiet_world_def)
qed

text \<open>
  Claim C3 as stated, that \<open>download_tile\<close> leaves the state of the downloader unchanged
  for every outcome: a successful download moves \<open>downloaded\<close> from 0 to 1.
\<close>

theorem download_tile_counts_download:
  "downloaded (new_downloader main_config) = 0 \<and>
   downloaded (fst (snd (download_tile (13, 6845, 3345) (new_downloader main_config) quiet_world))) = 1"
  by (simp add: download_example) (simp add: new_downloader_def)

subsection \<open>The collecting loop\<close>

lemma collect_counts:
  "\<exists>err n s' w'. collect total_tiles start_time rs i s w = (err, n, s', w') \<and>
     i \<le> n \<and> n \<le> i + length rs \<and>
     s' = s + length (filter (\<lambda>r. r = Inr True) (take (n - i) rs)) \<and>
     (err = None \<longrightarrow> n = i + length rs)"
proof (induction rs arbitrary: i s w)
  case Nil
  then show ?case by simp
next
  case (Cons r rs)
  show ?case
  proof (cases r)
    case (Inl e)
    then show ?thesis by simp
  next
    case (Inr b)
    define s1 where "s1 = (if b then s + 1 else s)"
    have cnt: "s1 + length (filter (\<lambda>r. r = Inr True) (take (n - (i + 1)) rs)) =
        s + length (filter (\<lambda>r. r = Inr True) (take (n - i) (r # rs)))" if "i + 1 \<le> n" for n
    proof -
      define m where "m = n - (i + 1)"
      have m: "n - i = Suc m" "n - Suc i = m" using that by (simp_all add: m_def)
      show ?thesis by (simp add: m s1_def Inr)
    qed
    have rec: ?thesis if "collect total_tiles start_time (r # rs) i s w =
        collect total_tiles start_time rs (i + 1) s1 w2" for w2
    proof -
      from Cons.IH[of "i + 1" s1 w2] obtain err n s' w' where
        c: "collect total_tiles start_time rs (i + 1) s1 w2 = (err, n, s', w')"
        and b: "i + 1 \<le> n" "n \<le> i + 1 + length rs"
        and s: "s' = s1 + length (filter (\<lambda>r. r = Inr True) (take (n - (i + 1)) rs))"
        and e: "err = None \<longrightarrow> n = i + 1 + length rs"
        by blast
      show ?thesis using that c b e s cnt[OF b(1)] by simp
    qed
    show ?thesis
    proof (cases "i mod 100 = 0")
      case False
      then show ?thesis using Inr by (intro rec) (simp add: s1_def)
    next
      case True
      show ?thesis
      proof (cases "clock w (ticks w) - start_time = 0")
        case z: True
        have "collect total_tiles start_time (r # rs) i s w =
            (Some ZeroDivisionError, i + 1, s1, w\<lparr>ticks := ticks w + 1\<rparr>)"
          using Inr True z by (simp add: s1_def Let_def)
        then show ?thesis using cnt[of "i + 1"] by simp
      next
        case nz: False
        show ?thesis using Inr True nz by (intro rec) (simp add: s1_def Let_def)
      qed
    qed
  qed
qed

text \<open>
  Claim C1, amended. Of the results that the collecting loop takes, each one counts as
  completed, and \<open>success\<close> counts exactly those that are \<open>True\<close>, the tiles that were
  downloaded and written; when no exception ends the loop it has taken every result. A
  tile that is skipped because its file exists and \<open>overwrite\<close> is false returns \<open>False\<close>
  and so does not count toward the success rate.
\<close>

theorem collect_counts_true_results:
  "(case collect total_tiles start_time rs 0 0 w of (err, n, success, w') \<Rightarrow>
      n \<le> length rs \<and>
      success = length (filter (\<lambda>r. r = Inr True) (take n rs)) \<and>
      (err = None \<longrightarrow> n = length rs)) \<and>
   (\<not> overwrite (config d) \<and> path_exists w0 (tile_path (config d) c) \<longrightarrow>
      fst (download_tile c d w0) = Inr False)"
proof -
  from collect_counts[of total_tiles start_time rs 0 0 w]
  have "case collect total_tiles start_time rs 0 0 w of (err, n, success, w') \<Rightarrow>
      n \<le> length rs \<and>
      success = length (filter (\<lambda>r. r = Inr True) (take n rs)) \<and>
      (err = None \<longrightarrow> n = length rs)"
    by auto
  then show ?thesis by (simp add: download_tile_def)
qed

lemma skip_example:
  "download_tile (13, 6845, 3345) (new_downloader main_config) tile_on_disk =
     (Inr False, new_downloader main_config, tile_on_disk)"
proof (rule download_tile_skip)
  show "\<not> overwrite (config (new_downloader main_config))"
    by (simp add: new_downloader_def main_config_def)
  show "path_exists tile_on_disk (tile_path (config (new_downloader main_config)) (13, 6845, 3345))"
    by (simp add: new_downloader_def tile_path_example path_exists_def tile_on_disk_def)
qed

theorem collect_counts_true_results_witness:
  "(case collect 3 0 [Inr True, Inr False, Inr True] 0 0 quiet_world of (err, n, success, w') \<Rightarrow>
      err = None \<and> n = 3 \<and> success = 2) \<and>
   \<not> overwrite (config (new_downloader main_config)) \<and>
   path_exists tile_on_disk (tile_path (config (new_downloader main_config)) (13, 6845, 3345)) \<and>
   fst (download_tile (13, 6845, 3345) (new_downloader main_config) tile_on_disk) = Inr False"
proof -
  have a: "\<not> overwrite (config (new_downloader main_config))"
    by (simp add: new_downloader_def main_config_def)
  have b: "path_exists tile_on_disk (tile_path (config (new_downloader main_config)) (13, 6845, 3345))"
    by (simp add: new_downloader_def tile_path_example path_exists_def tile_on_disk_def)
  have c: "fst (collect 3 0 [Inr True, Inr False, Inr True] 0 0 quiet_world) = None"
    by (simp add: quiet_world_def Let_def)
  show ?thesis
    using a b c collect_counts_true_results
      [where total_tiles = 3 and start_time = 0 and rs = "[Inr True, Inr False, Inr True]"
         and w = quiet_world and d = "new_downloader main_config" and ?w0.0 = tile_on_disk
         and c = "(13, 6845, 3345)"]
    by (auto split: prod.splits)
qed

text \<open>
  Claim C1 as stated, that a skipped tile counts as a success: the result of a skipped
  tile is taken as completed and \<open>success\<close> stays 0; the progress line reports a success
  rate of 0.
\<close>

theorem skipped_tile_not_counted:
  "\<not> overwrite (config (new_downloader main_config)) \<and>
   path_exists tile_on_disk (tile_path (config (new_downloader main_config)) (13, 6845, 3345)) \<and>
   collect 1 0 [fst (download_tile (13, 6845, 3345) (new_downloader main_config) tile_on_disk)]
       0 0 tile_on_disk =
     (None, 1, 0, tile_on_disk\<lparr>ticks := 1, stdout := [ProgressLine 1 1 0 0]\<rparr>)"
proof -
  have a: "\<not> overwrite (config (new_downloader main_config))"
    by (simp add: new_downloader_def main_config_def)
  have b: "path_exists tile_on_disk (tile_path (config (new_downloader main_config)) (13, 6845, 3345))"
    by (simp add: new_downloader_def tile_path_example path_exists_def tile_on_disk_def)
  have "collect 1 0 [Inr False] 0 0 tile_on_disk =
     (None, 1, 0, tile_on_disk\<lparr>ticks := 1, stdout := [ProgressLine 1 1 0 0]\<rparr>)"
    by (simp add: tile_on_disk_def quiet_world_def Let_def)
  with a b show ?thesis by (simp add: skip_example)
qed

subsection \<open>Exceptions that leave the fetcher\<close>

text \<open>
  Claim C2 says that no filesystem error leaves \<open>download_tile\<close>. With a regular file at
  \<open>./shanghai_tiles/13\<close>, \<open>os.makedirs\<close> raises outside the \<open>try\<close> block: the
  exception leaves \<open>download_tile\<close> and ends the collecting loop at the first result.
\<close>

theorem makedirs_error_escapes:
  "download_tile (13, 6845, 3345) (new_downloader main_config) file_in_the_way =
     (Inl (OSError ''./shanghai_tiles/13/6845''), new_downloader main_config, file_in_the_way) \<and>
   collect 1 0 [fst (download_tile (13, 6845, 3345) (new_downloader main_config) file_in_the_way)]
       0 0 file_in_the_way =
     (Some (OSError ''./shanghai_tiles/13/6845''), 0, 0, file_in_the_way)"
proof -
  have "makedirs ''./shanghai_tiles/13/6845'' file_in_the_way = Inl (OSError ''./shanghai_tiles/13/6845'')"
    by (simp add: makedirs_def ancestors_example file_in_the_way_def quiet_world_def)
  moreover have "\<not> path_exists file_in_the_way ''./shanghai_tiles/13/6845/3345.png''"
    by (simp add: path_exists_def file_in_the_way_def quiet_world_def)
  ultimately have "download_tile (13, 6845, 3345) (new_downloader main_config) file_in_the_way =
     (Inl (OSError ''./shanghai_tiles/13/6845''), new_downloader main_config, file_in_the_way)"
    by (simp add: download_tile_def new_downloader_def tile_path_example dirname_example)
  then show ?thesis by simp
qed

subsection \<open>The progress line\<close>

text \<open>
  Claim C6 says that each progress line reports the completed count divided by the
  elapsed seconds. In a run of five tiles that all succeed, one line is printed, at index
  0, with 1 of 5 completed and success rate 1, but its throughput is \<open>i/elapsed = 0\<close>
  where the completed count over the elapsed two seconds is \<open>1/2\<close>.
\<close>

theorem first_progress_line_speed:
  "collect 5 0 [Inr True, Inr True, Inr True, Inr True, Inr True] 0 0 quiet_world =
     (None, 5, 5, quiet_world\<lparr>ticks := 1, stdout := [ProgressLine 1 5 1 0]\<rparr>) \<and>
   clock quiet_world 0 - 0 = 2 \<and> (0::rat) \<noteq> 1 / 2"
  by (simp add: quiet_world_def Let_def)

end
